theory Spec2Isabelle
  imports Main
begin

section \<open>Values, errors and strings\<close>

text \<open>
  The PostgreSQL layer of the repository (\<^verbatim>\<open>PostgreSqlDb\<close>, with the helpers
  \<^verbatim>\<open>checkName\<close> and \<^verbatim>\<open>splitUp\<close>) is embedded function by function.

  A JavaScript string is modelled as a HOL \<open>string\<close>. The only string predicate of the
  source is the regular expression of \<^verbatim>\<open>checkName\<close>, whose classes contain ASCII
  characters only: a string with any other character is rejected whatever its length, and
  on ASCII strings the length in characters is the length of the list.

  The values of a row are \<^verbatim>\<open>number | string | boolean | null | Date\<close> (db.ts); the
  field mappings are typed \<^verbatim>\<open>any\<close>, so \<^verbatim>\<open>undefined\<close> is a value as well. Numbers
  are only ever passed through, never computed on; a \<^verbatim>\<open>Date\<close> is its time value in
  milliseconds, absent for an invalid date.
\<close>

datatype Date = Date (timeValue: "int option")

datatype val =
    VNull
  | VUndefined
  | VBool bool
  | VNum int
  | VStr string
  | VDate Date

text \<open>
  What a JavaScript \<^verbatim>\<open>throw\<close> can carry here: the \<^verbatim>\<open>Error\<close> of
  \<^verbatim>\<open>checkName\<close> with its message, the \<^verbatim>\<open>RangeError\<close> of
  \<^verbatim>\<open>Date.prototype.toISOString\<close>, and whatever the database client rejects with.
\<close>

datatype error =
    Error string
  | RangeError string
  | DriverError string

section \<open>checkName\<close>

text \<open>
  \<^verbatim>\<open>/^[a-zA-Z_][a-zA-Z_\d]{0,30}$/.test(name)\<close>: without the \<^verbatim>\<open>m\<close> and \<^verbatim>\<open>u\<close>
  flags, \<^verbatim>\<open>^\<close> and \<^verbatim>\<open>$\<close> match at the two ends of the input only, and \<^verbatim>\<open>\d\<close> is
  \<^verbatim>\<open>[0-9]\<close>.
\<close>

definition in_range :: "char \<Rightarrow> char \<Rightarrow> char \<Rightarrow> bool" where
  "in_range lo hi c = ((of_char lo :: nat) \<le> of_char c \<and> (of_char c :: nat) \<le> of_char hi)"

definition first_class :: "char \<Rightarrow> bool" where
  "first_class c = (in_range CHR ''a'' CHR ''z'' c \<or> in_range CHR ''A'' CHR ''Z'' c \<or> c = CHR ''_'')"

definition rest_class :: "char \<Rightarrow> bool" where
  "rest_class c = (in_range CHR ''a'' CHR ''z'' c \<or> in_range CHR ''A'' CHR ''Z'' c \<or> c = CHR ''_''
     \<or> in_range CHR ''0'' CHR ''9'' c)"

text \<open>\<^verbatim>\<open>[...]{0,n}$\<close>: at most \<open>n\<close> characters of the class, then the end of the input.\<close>

fun rest_upto :: "nat \<Rightarrow> string \<Rightarrow> bool" where
  "rest_upto n [] = True"
| "rest_upto 0 (c # cs) = False"
| "rest_upto (Suc n) (c # cs) = (rest_class c \<and> rest_upto n cs)"

definition name_test :: "string \<Rightarrow> bool" where
  "name_test name = (case name of [] \<Rightarrow> False | c # cs \<Rightarrow> first_class c \<and> rest_upto 30 cs)"

definition checkName :: "string \<Rightarrow> error + string" where
  "checkName name = (if name_test name then Inr name else Inl (Error (''illegal name: '' @ name)))"

text \<open>The pattern as the specification words it, on explicit alphabets.\<close>

definition letters :: "char list" where
  "letters = ''abcdefghijklmnopqrstuvwxyzABCDEFGHIJKLMNOPQRSTUVWXYZ''"

definition digits :: "char list" where
  "digits = ''0123456789''"

definition spec_pattern :: "string \<Rightarrow> bool" where
  "spec_pattern s = (\<exists>c cs. s = c # cs \<and> c \<in> set (letters @ ''_'')
     \<and> length cs \<le> 30 \<and> (\<forall>d \<in> set cs. d \<in> set (letters @ ''_'' @ digits)))"

section \<open>splitUp\<close>

text \<open>
  The placeholder number \<^verbatim>\<open>offset + result.variables.length + 1\<close> is a count of
  parameters: a natural number far below \<open>2 ^ 53\<close>, where JavaScript's number addition is
  exact and the template literal renders it in decimal. \<open>showNat\<close> is that rendering.
\<close>

fun showNat :: "nat \<Rightarrow> string" where
  "showNat n = (if n < 10 then [digits ! n] else showNat (n div 10) @ [digits ! (n mod 10)])"

declare showNat.simps [simp del]

text \<open>\<^verbatim>\<open>Array.prototype.join\<close> on an array of strings.\<close>

fun join :: "string \<Rightarrow> string list \<Rightarrow> string" where
  "join sep [] = []"
| "join sep [x] = x"
| "join sep (x # y # ys) = x @ sep @ join sep (y # ys)"

record SplitUpResult =
  columns :: "string list"
  variables :: "string list"
  params :: "val list"
  assignments :: "string list"
  whereSection :: string

text \<open>
  A field mapping is given by its entries, in the order of \<^verbatim>\<open>Object.entries(fields)\<close>;
  the parameter \<^verbatim>\<open>fields\<close> of the source is \<open>flds\<close> here.
\<close>

type_synonym fields = "(string \<times> val) list"

text \<open>
  \<^verbatim>\<open>Array.prototype.reduce\<close> with a callback that may throw: the first throw ends the
  reduction.
\<close>

fun reduce :: "('a \<Rightarrow> 'b \<Rightarrow> error + 'a) \<Rightarrow> 'b list \<Rightarrow> 'a \<Rightarrow> error + 'a" where
  "reduce f [] acc = Inr acc"
| "reduce f (x # xs) acc = (case f acc x of Inl e \<Rightarrow> Inl e | Inr acc' \<Rightarrow> reduce f xs acc')"

text \<open>The callback of the reduction in \<^verbatim>\<open>splitUp\<close>.\<close>

definition splitUp_step :: "bool \<Rightarrow> nat \<Rightarrow> SplitUpResult \<Rightarrow> string \<times> val \<Rightarrow> error + SplitUpResult" where
  "splitUp_step isWhere offset result entry =
     (case entry of (key, value) \<Rightarrow>
        (case checkName key of
           Inl e \<Rightarrow> Inl e
         | Inr name \<Rightarrow>
             (let column = ''\"'' @ name @ ''\"'' in
              if isWhere \<and> value = VNull
              then Inr (result\<lparr>assignments := assignments result @ [column @ '' is null'']\<rparr>)
              else
                (let variable = ''$'' @ showNat (offset + length (variables result) + 1) in
                 Inr (result\<lparr>columns := columns result @ [column],
                              variables := variables result @ [variable],
                              params := params result @ [value],
                              assignments := assignments result @ [column @ '' = '' @ variable]\<rparr>)))))"

definition initial :: SplitUpResult where
  "initial = \<lparr>columns = [], variables = [], params = [], assignments = [], whereSection = []\<rparr>"

definition splitUp :: "fields \<Rightarrow> bool \<Rightarrow> nat \<Rightarrow> error + SplitUpResult" where
  "splitUp flds isWhere offset =
     (case reduce (splitUp_step isWhere offset) flds initial of
        Inl e \<Rightarrow> Inl e
      | Inr result \<Rightarrow>
          Inr (if isWhere
               then result\<lparr>whereSection :=
                      (if assignments result \<noteq> []
                       then '' where '' @ join '' and '' (assignments result)
                       else [])\<rparr>
               else result))"

section \<open>The client, the world and the low-level query\<close>

text \<open>
  The \<^verbatim>\<open>pg\<close> client is not part of the repository: it is a parameter, any function
  from the SQL text, the parameter list (absent when \<^verbatim>\<open>undefined\<close>) and the state of
  the connection and database to a result or a rejection and the next state. So is the
  text that \<^verbatim>\<open>toISOString\<close> gives a valid time value.

  The world of a run holds that state, the calls handed to the client so far, in order,
  and what \<^verbatim>\<open>console.error\<close> has printed. A promise is a function of the world; the
  operations of one caller are awaited one after the other.
\<close>

type_synonym Row = "(string \<times> val) list"

record QueryResult =
  rows :: "Row list"

type_synonym call = "string \<times> val list option"

record 'db world =
  db :: 'db
  sent :: "call list"
  console :: "error list"

record 'db runtime =
  clientQuery :: "string \<Rightarrow> val list option \<Rightarrow> 'db \<Rightarrow> (error + QueryResult) \<times> 'db"
  isoFormat :: "int \<Rightarrow> string"

type_synonym ('db, 'a) promise = "'db world \<Rightarrow> (error + 'a) \<times> 'db world"

text \<open>\<^verbatim>\<open>await p\<close> followed by the rest of an async function: a rejection of \<open>p\<close> rejects it.\<close>

definition await :: "('db, 'a) promise \<Rightarrow> ('a \<Rightarrow> ('db, 'b) promise) \<Rightarrow> ('db, 'b) promise" where
  "await p k w = (case p w of (Inl e, w') \<Rightarrow> (Inl e, w') | (Inr x, w') \<Rightarrow> k x w')"

text \<open>\<^verbatim>\<open>for (const x of xs) { await body(x); }\<close>\<close>

fun for_of :: "'a list \<Rightarrow> ('a \<Rightarrow> ('db, 'b) promise) \<Rightarrow> ('db, unit) promise" where
  "for_of [] body w = (Inr (), w)"
| "for_of (x # xs) body w =
     (case body x w of (Inl e, w') \<Rightarrow> (Inl e, w') | (Inr _, w') \<Rightarrow> for_of xs body w')"

text \<open>\<^verbatim>\<open>Date.prototype.toISOString\<close> throws a \<^verbatim>\<open>RangeError\<close> on an invalid date.\<close>

definition toISOString :: "(int \<Rightarrow> string) \<Rightarrow> Date \<Rightarrow> error + string" where
  "toISOString fmt d =
     (case timeValue d of None \<Rightarrow> Inl (RangeError ''Invalid time value'') | Some t \<Rightarrow> Inr (fmt t))"

text \<open>The callback of \<^verbatim>\<open>params.map\<close> in \<^verbatim>\<open>query\<close>.\<close>

definition convert :: "(int \<Rightarrow> string) \<Rightarrow> val \<Rightarrow> error + val" where
  "convert fmt param =
     (case param of
        VDate d \<Rightarrow> (case toISOString fmt d of Inl e \<Rightarrow> Inl e | Inr s \<Rightarrow> Inr (VStr s))
      | _ \<Rightarrow> Inr param)"

text \<open>\<^verbatim>\<open>Array.prototype.map\<close> with a callback that may throw.\<close>

fun map_throwing :: "('a \<Rightarrow> error + 'b) \<Rightarrow> 'a list \<Rightarrow> error + 'b list" where
  "map_throwing f [] = Inr []"
| "map_throwing f (x # xs) =
     (case f x of
        Inl e \<Rightarrow> Inl e
      | Inr y \<Rightarrow> (case map_throwing f xs of Inl e \<Rightarrow> Inl e | Inr ys \<Rightarrow> Inr (y # ys)))"

definition newParams :: "(int \<Rightarrow> string) \<Rightarrow> val list option \<Rightarrow> error + val list option" where
  "newParams fmt ps =
     (case ps of
        None \<Rightarrow> Inr None
      | Some xs \<Rightarrow> (case map_throwing (convert fmt) xs of Inl e \<Rightarrow> Inl e | Inr ys \<Rightarrow> Inr (Some ys)))"

definition query :: "'db runtime \<Rightarrow> string \<Rightarrow> val list option \<Rightarrow> ('db, QueryResult) promise" where
  "query rt sql ps w =
     (case newParams (isoFormat rt) ps of
        Inl e \<Rightarrow> (Inl e, w)
      | Inr np \<Rightarrow>
          (case clientQuery rt sql np (db w) of
             (res, d) \<Rightarrow> (res, w\<lparr>db := d, sent := sent w @ [(sql, np)]\<rparr>)))"

definition query2 :: "'db runtime \<Rightarrow> string \<Rightarrow> val list \<Rightarrow> ('db, Row list) promise" where
  "query2 rt sql ps w =
     (case query rt sql (Some ps) w of
        (Inr queryResult, w') \<Rightarrow> (Inr (rows queryResult), w')
      | (Inl e, w') \<Rightarrow> (Inl e, w'\<lparr>console := console w' @ [e]\<rparr>))"

section \<open>The statements\<close>

text \<open>
  Each of \<^verbatim>\<open>create\<close>, \<^verbatim>\<open>upsert\<close>, \<^verbatim>\<open>update\<close>, \<^verbatim>\<open>select\<close> and \<^verbatim>\<open>delete\<close> first
  builds its SQL text and parameter list, where \<^verbatim>\<open>splitUp\<close> and \<^verbatim>\<open>checkName\<close> may
  throw (in that order), and then returns \<^verbatim>\<open>this.query2(sql, params)\<close>. The first
  half is the function \<open>_sql\<close>. A template literal renders an array as its elements
  joined by a comma.
\<close>

definition create_sql :: "string \<Rightarrow> fields \<Rightarrow> error + string \<times> val list" where
  "create_sql table flds =
     (case splitUp flds False 0 of
        Inl e \<Rightarrow> Inl e
      | Inr r \<Rightarrow>
          (case checkName table of
             Inl e \<Rightarrow> Inl e
           | Inr t \<Rightarrow>
               Inr (''insert into \"'' @ t @ ''\" ('' @ join '','' (columns r) @ '') values (''
                      @ join '','' (variables r) @ '')'',
                    params r)))"

definition upsert_sql :: "string \<Rightarrow> fields \<Rightarrow> string list \<Rightarrow> error + string \<times> val list" where
  "upsert_sql table flds unique =
     (case splitUp flds False 0 of
        Inl e \<Rightarrow> Inl e
      | Inr r \<Rightarrow>
          (case checkName table of
             Inl e \<Rightarrow> Inl e
           | Inr t \<Rightarrow>
               Inr (''insert into \"'' @ t @ ''\" ('' @ join '','' (columns r) @ '') values (''
                      @ join '','' (variables r) @ '') on conflict ('' @ join '','' unique
                      @ '') do update set '' @ join '','' (assignments r),
                    params r)))"

definition update_sql :: "string \<Rightarrow> fields \<Rightarrow> fields \<Rightarrow> error + string \<times> val list" where
  "update_sql table flds whereConditions =
     (case splitUp flds False 0 of
        Inl e \<Rightarrow> Inl e
      | Inr r \<Rightarrow>
          (case splitUp whereConditions True (length (params r)) of
             Inl e \<Rightarrow> Inl e
           | Inr wr \<Rightarrow>
               (case checkName table of
                  Inl e \<Rightarrow> Inl e
                | Inr t \<Rightarrow>
                    Inr (''update \"'' @ t @ ''\" set '' @ join '','' (assignments r)
                           @ whereSection wr,
                         params r @ params wr))))"

definition select_sql :: "string \<Rightarrow> fields \<Rightarrow> error + string \<times> val list" where
  "select_sql table whereConditions =
     (case splitUp whereConditions True 0 of
        Inl e \<Rightarrow> Inl e
      | Inr wr \<Rightarrow>
          (case checkName table of
             Inl e \<Rightarrow> Inl e
           | Inr t \<Rightarrow> Inr (''select * from \"'' @ t @ ''\"'' @ whereSection wr, params wr)))"

definition delete_sql :: "string \<Rightarrow> fields \<Rightarrow> error + string \<times> val list" where
  "delete_sql table whereConditions =
     (case splitUp whereConditions True 0 of
        Inl e \<Rightarrow> Inl e
      | Inr wr \<Rightarrow>
          (case checkName table of
             Inl e \<Rightarrow> Inl e
           | Inr t \<Rightarrow> Inr (''delete from \"'' @ t @ ''\"'' @ whereSection wr, params wr)))"

text \<open>A throw while the statement is built rejects the promise before anything is sent.\<close>

definition execute :: "'db runtime \<Rightarrow> error + string \<times> val list \<Rightarrow> ('db, Row list) promise" where
  "execute rt built w =
     (case built of Inl e \<Rightarrow> (Inl e, w) | Inr (sql, ps) \<Rightarrow> query2 rt sql ps w)"

definition create :: "'db runtime \<Rightarrow> string \<Rightarrow> fields \<Rightarrow> ('db, Row list) promise" where
  "create rt table flds = execute rt (create_sql table flds)"

definition upsert :: "'db runtime \<Rightarrow> string \<Rightarrow> fields \<Rightarrow> string list \<Rightarrow> ('db, Row list) promise" where
  "upsert rt table flds unique = execute rt (upsert_sql table flds unique)"

definition update :: "'db runtime \<Rightarrow> string \<Rightarrow> fields \<Rightarrow> fields \<Rightarrow> ('db, Row list) promise" where
  "update rt table flds whereConditions = execute rt (update_sql table flds whereConditions)"

definition select :: "'db runtime \<Rightarrow> string \<Rightarrow> fields \<Rightarrow> ('db, Row list) promise" where
  "select rt table whereConditions = execute rt (select_sql table whereConditions)"

definition delete :: "'db runtime \<Rightarrow> string \<Rightarrow> fields \<Rightarrow> ('db, Row list) promise" where
  "delete rt table whereConditions = execute rt (delete_sql table whereConditions)"

section \<open>Operations by id and batches\<close>

text \<open>\<^verbatim>\<open>IdBase = string | number\<close>; \<^verbatim>\<open>{ id }\<close> is the mapping with the one key \<^verbatim>\<open>id\<close>.\<close>

datatype Id = IdStr string | IdNum int

fun id_val :: "Id \<Rightarrow> val" where
  "id_val (IdStr s) = VStr s"
| "id_val (IdNum n) = VNum n"

text \<open>\<^verbatim>\<open>rows[0]\<close> of an empty array is \<^verbatim>\<open>undefined\<close>, here \<open>None\<close>.\<close>

definition getItemById :: "'db runtime \<Rightarrow> string \<Rightarrow> Id \<Rightarrow> ('db, Row option) promise" where
  "getItemById rt tableName i =
     await (select rt tableName [(''id'', id_val i)])
       (\<lambda>rs w. (Inr (case rs of [] \<Rightarrow> None | r # _ \<Rightarrow> Some r), w))"

definition writeRows ::
  "'db runtime \<Rightarrow> string \<Rightarrow> fields list \<Rightarrow> string list \<Rightarrow> ('db, unit) promise" where
  "writeRows rt tableName rowList unique =
     await (query rt ''begin'' None) (\<lambda>_.
     await (query rt ''SET CONSTRAINTS fk_parent DEFERRED'' None) (\<lambda>_.
     await (for_of rowList (\<lambda>row. upsert rt tableName row unique)) (\<lambda>_.
     await (query rt ''commit'' None) (\<lambda>_ w. (Inr (), w)))))"

definition deleteRows :: "'db runtime \<Rightarrow> string \<Rightarrow> Id list \<Rightarrow> ('db, unit) promise" where
  "deleteRows rt tableName ids =
     await (query rt ''begin'' None) (\<lambda>_.
     await (query rt ''SET CONSTRAINTS fk_parent DEFERRED'' None) (\<lambda>_.
     await (for_of ids (\<lambda>i. delete rt tableName [(''id'', id_val i)])) (\<lambda>_.
     await (query rt ''commit'' None) (\<lambda>_ w. (Inr (), w)))))"

section \<open>Vocabulary of the properties\<close>

text \<open>
  A quoted column name and a numbered placeholder, as \<^verbatim>\<open>splitUp\<close> writes them; whether
  an entry binds a parameter (every entry does, but a \<^verbatim>\<open>null\<close> in WHERE mode); and the
  assignment list of a mapping, \<open>n\<close> being the number of the last placeholder used so far.
\<close>

abbreviation quoted :: "string \<Rightarrow> string" where
  "quoted name \<equiv> ''\"'' @ name @ ''\"''"

abbreviation placeholder :: "nat \<Rightarrow> string" where
  "placeholder i \<equiv> ''$'' @ showNat i"

definition binds :: "bool \<Rightarrow> string \<times> val \<Rightarrow> bool" where
  "binds isWhere entry = (\<not> (isWhere \<and> snd entry = VNull))"

fun assigns :: "bool \<Rightarrow> nat \<Rightarrow> fields \<Rightarrow> string list" where
  "assigns isWhere n [] = []"
| "assigns isWhere n (entry # rest) =
     (if binds isWhere entry
      then (quoted (fst entry) @ '' = '' @ placeholder (n + 1)) # assigns isWhere (n + 1) rest
      else (quoted (fst entry) @ '' is null'') # assigns isWhere n rest)"

text \<open>
  The call that reaches the client when a built statement is executed, if one does: none
  when building the statement threw, none when \<^verbatim>\<open>toISOString\<close> threw in \<^verbatim>\<open>query\<close>.
\<close>

definition call_of :: "(int \<Rightarrow> string) \<Rightarrow> error + string \<times> val list \<Rightarrow> call option" where
  "call_of fmt built =
     (case built of
        Inl e \<Rightarrow> None
      | Inr (sql, ps) \<Rightarrow>
          (case newParams fmt (Some ps) of Inl e \<Rightarrow> None | Inr np \<Rightarrow> Some (sql, np)))"

text \<open>
  A client for the examples: it counts the calls it receives in its state, rejects the
  call whose number (from 0) is \<open>failAt\<close>, if any, and answers every other call with the
  rows \<open>rs\<close>. The only date of the examples is the one of time value 0.
\<close>

definition testRuntime :: "nat option \<Rightarrow> Row list \<Rightarrow> nat runtime" where
  "testRuntime failAt rs =
     \<lparr>clientQuery = (\<lambda>sql ps d.
        (if Some d = failAt then Inl (DriverError ''connection lost'') else Inr \<lparr>rows = rs\<rparr>, Suc d)),
      isoFormat = (\<lambda>t. ''1970-01-01T00:00:00.000Z'')\<rparr>"

definition start :: "nat world" where
  "start = \<lparr>db = 0, sent = [], console = []\<rparr>"

section \<open>Properties of checkName\<close>

lemma mem_via_code: "c \<in> set L \<longleftrightarrow> (of_char c :: nat) \<in> of_char ` set L"
  by (auto simp: image_iff)

lemma codes_lower: "of_char ` set ''abcdefghijklmnopqrstuvwxyz'' = {97 .. 122 :: nat}"
  by (simp add: atLeastAtMost_upt upt_rec)

lemma codes_upper: "of_char ` set ''ABCDEFGHIJKLMNOPQRSTUVWXYZ'' = {65 .. 90 :: nat}"
  by (simp add: atLeastAtMost_upt upt_rec)

lemma codes_digits: "of_char ` set digits = {48 .. 57 :: nat}"
  by (simp add: digits_def atLeastAtMost_upt upt_rec)

lemma in_range_lower: "in_range CHR ''a'' CHR ''z'' c = (c \<in> set ''abcdefghijklmnopqrstuvwxyz'')"
  unfolding mem_via_code [of c] codes_lower in_range_def by simp

lemma in_range_upper: "in_range CHR ''A'' CHR ''Z'' c = (c \<in> set ''ABCDEFGHIJKLMNOPQRSTUVWXYZ'')"
  unfolding mem_via_code [of c] codes_upper in_range_def by simp

lemma in_range_digit: "in_range CHR ''0'' CHR ''9'' c = (c \<in> set digits)"
  unfolding mem_via_code [of c] codes_digits in_range_def by simp

lemma first_class_iff: "first_class c = (c \<in> set (letters @ ''_''))"
  unfolding first_class_def in_range_lower in_range_upper letters_def by auto

lemma rest_class_iff: "rest_class c = (c \<in> set (letters @ ''_'' @ digits))"
  unfolding rest_class_def in_range_lower in_range_upper in_range_digit letters_def by auto

lemma rest_upto_iff: "rest_upto n cs = (length cs \<le> n \<and> (\<forall>c \<in> set cs. rest_class c))"
proof (induction cs arbitrary: n)
  case Nil
  show ?case by simp
next
  case (Cons c cs)
  show ?case by (cases n) (auto simp: Cons.IH)
qed

lemma name_test_iff: "name_test s = spec_pattern s"
  unfolding name_test_def spec_pattern_def
  by (cases s) (simp_all add: rest_upto_iff first_class_iff rest_class_iff)

lemma digit_not_first: "c \<in> set digits \<Longrightarrow> \<not> first_class c"
  unfolding first_class_iff by (auto simp: digits_def letters_def)

lemma name_test_length: "name_test s \<Longrightarrow> length s \<le> 31"
  unfolding name_test_def by (cases s) (simp_all add: rest_upto_iff)

lemma first_class_rest: "first_class c \<Longrightarrow> rest_class c"
  by (auto simp: first_class_def rest_class_def)

lemma name_test_chars: "name_test s \<Longrightarrow> c \<in> set s \<Longrightarrow> c \<in> set (letters @ ''_'' @ digits)"
proof -
  assume t: "name_test s" and c: "c \<in> set s"
  from t have "\<forall>d \<in> set s. rest_class d"
    unfolding name_test_def by (cases s) (auto simp: rest_upto_iff first_class_rest)
  with c have "rest_class c" by blast
  then show ?thesis by (simp only: rest_class_iff)
qed

lemma name_test_hd: "name_test s \<Longrightarrow> s \<noteq> [] \<and> hd s \<notin> set digits"
  unfolding name_test_def by (cases s) (auto dest: digit_not_first)

lemma checkName_legal: "spec_pattern s \<Longrightarrow> checkName s = Inr s"
  by (simp add: checkName_def name_test_iff)

lemma spec_pattern_user_1: "spec_pattern ''user_1''"
  unfolding name_test_iff [symmetric]
  by (simp add: name_test_def rest_upto_iff first_class_def rest_class_def in_range_def)

text \<open>
  C4. A string of the pattern \<^verbatim>\<open>^[A-Za-z_][A-Za-z_0-9]{0,30}$\<close> is returned unchanged.
  A string that contains a character outside \<^verbatim>\<open>[A-Za-z0-9_]\<close>, or starts with a digit,
  or is longer than 31 characters makes \<^verbatim>\<open>checkName\<close> throw, at once, the error whose
  message is \<^verbatim>\<open>illegal name: \<close> followed by the offending name.
\<close>

theorem checkName_contract:
  "(spec_pattern s \<longrightarrow> checkName s = Inr s) \<and>
   ((\<exists>c \<in> set s. c \<notin> set (letters @ ''_'' @ digits)) \<or> (s \<noteq> [] \<and> hd s \<in> set digits) \<or> 31 < length s
      \<longrightarrow> checkName s = Inl (Error (''illegal name: '' @ s)))"
proof (intro conjI impI)
  assume "spec_pattern s"
  then show "checkName s = Inr s" by (simp add: checkName_def name_test_iff)
next
  assume bad: "(\<exists>c \<in> set s. c \<notin> set (letters @ ''_'' @ digits)) \<or> (s \<noteq> [] \<and> hd s \<in> set digits) \<or> 31 < length s"
  have "\<not> name_test s"
  proof
    assume t: "name_test s"
    from bad name_test_chars [OF t] name_test_hd [OF t] name_test_length [OF t]
    show False by auto
  qed
  then show "checkName s = Inl (Error (''illegal name: '' @ s))" by (simp add: checkName_def)
qed

theorem checkName_contract_witness:
  "spec_pattern ''user_1'' \<and> checkName ''user_1'' = Inr ''user_1''
   \<and> (\<exists>c \<in> set ''a;b''. c \<notin> set (letters @ ''_'' @ digits))
   \<and> checkName ''a;b'' = Inl (Error ''illegal name: a;b'')
   \<and> hd ''1abc'' \<in> set digits \<and> checkName ''1abc'' = Inl (Error ''illegal name: 1abc'')
   \<and> 31 < length ''abcdefghijklmnopqrstuvwxyz012345''
   \<and> checkName ''abcdefghijklmnopqrstuvwxyz012345''
       = Inl (Error ''illegal name: abcdefghijklmnopqrstuvwxyz012345'')"
proof -
  have a: "\<exists>c \<in> set ''a;b''. c \<notin> set (letters @ ''_'' @ digits)"
    by (simp add: letters_def digits_def)
  have b: "hd ''1abc'' \<in> set digits" by (simp add: digits_def)
  have c: "31 < length ''abcdefghijklmnopqrstuvwxyz012345''" by simp
  have 1: "checkName ''user_1'' = Inr ''user_1''"
    using checkName_contract [of "''user_1''"] spec_pattern_user_1 by blast
  have 2: "checkName ''a;b'' = Inl (Error (''illegal name: '' @ ''a;b''))"
    using checkName_contract [of "''a;b''"] a by blast
  have 3: "checkName ''1abc'' = Inl (Error (''illegal name: '' @ ''1abc''))"
    using checkName_contract [of "''1abc''"] b by blast
  have 4: "checkName ''abcdefghijklmnopqrstuvwxyz012345''
      = Inl (Error (''illegal name: '' @ ''abcdefghijklmnopqrstuvwxyz012345''))"
    using checkName_contract [of "''abcdefghijklmnopqrstuvwxyz012345''"] c by blast
  from 2 3 4 have 5: "checkName ''a;b'' = Inl (Error ''illegal name: a;b'')"
    "checkName ''1abc'' = Inl (Error ''illegal name: 1abc'')"
    "checkName ''abcdefghijklmnopqrstuvwxyz012345''
       = Inl (Error ''illegal name: abcdefghijklmnopqrstuvwxyz012345'')"
    by simp_all
  show ?thesis
    by (intro conjI) (rule spec_pattern_user_1 1 a b c 5)+
qed

section \<open>Properties of splitUp\<close>

lemma showNat_nonempty: "showNat n \<noteq> []"
  by (subst showNat.simps) simp

lemma digit_inj: "a < 10 \<Longrightarrow> b < 10 \<Longrightarrow> digits ! a = digits ! b \<Longrightarrow> a = b"
proof -
  assume a: "a < 10" and b: "b < 10" and e: "digits ! a = digits ! b"
  have d: "distinct digits" by (simp add: digits_def)
  have l: "length digits = 10" by (simp add: digits_def)
  from d a b e l show "a = b" by (simp add: nth_eq_iff_index_eq)
qed

lemma showNat_inj: "showNat a = showNat b \<Longrightarrow> a = b"
proof (induction a arbitrary: b rule: showNat.induct)
  case (1 n)
  show ?case
  proof (cases "n < 10")
    case small: True
    show ?thesis
    proof (cases "b < 10")
      case True
      with small "1.prems" show ?thesis
        by (simp add: showNat.simps [of n] showNat.simps [of b] digit_inj)
    next
      case False
      with small "1.prems" showNat_nonempty [of "b div 10"] show ?thesis
        by (simp add: showNat.simps [of n] showNat.simps [of b])
    qed
  next
    case big: False
    show ?thesis
    proof (cases "b < 10")
      case True
      with big "1.prems" showNat_nonempty [of "n div 10"] show ?thesis
        by (simp add: showNat.simps [of n] showNat.simps [of b])
    next
      case False
      with big "1.prems" have e: "showNat (n div 10) = showNat (b div 10)"
        and d: "digits ! (n mod 10) = digits ! (b mod 10)"
        by (simp_all add: showNat.simps [of n] showNat.simps [of b])
      from "1.IH" [OF big e] have q: "n div 10 = b div 10" .
      from d have r: "n mod 10 = b mod 10" by (intro digit_inj) simp_all
      from q r show ?thesis by (metis div_mult_mod_eq)
    qed
  qed
qed

lemma placeholders_distinct: "distinct (map placeholder [a ..< b])"
  by (simp add: distinct_map inj_on_def showNat_inj)

lemma step_legal:
  "name_test (fst entry) \<Longrightarrow> splitUp_step isWhere off acc entry =
     Inr (if binds isWhere entry
          then acc\<lparr>columns := columns acc @ [quoted (fst entry)],
                   variables := variables acc @ [placeholder (off + length (variables acc) + 1)],
                   params := params acc @ [snd entry],
                   assignments := assignments acc
                     @ [quoted (fst entry) @ '' = '' @ placeholder (off + length (variables acc) + 1)]\<rparr>
          else acc\<lparr>assignments := assignments acc @ [quoted (fst entry) @ '' is null'']\<rparr>)"
  by (cases entry) (simp add: splitUp_step_def checkName_def binds_def Let_def)

lemma step_illegal:
  "\<not> name_test (fst entry) \<Longrightarrow>
     splitUp_step isWhere off acc entry = Inl (Error (''illegal name: '' @ fst entry))"
  by (cases entry) (simp add: splitUp_step_def checkName_def)

lemma reduce_legal:
  "\<forall>entry \<in> set fs. name_test (fst entry) \<Longrightarrow>
   reduce (splitUp_step isWhere off) fs acc =
     Inr (acc\<lparr>columns := columns acc @ map (\<lambda>entry. quoted (fst entry)) (filter (binds isWhere) fs),
              variables := variables acc @ map placeholder
                 [off + length (variables acc) + 1 ..<
                  off + length (variables acc) + 1 + length (filter (binds isWhere) fs)],
              params := params acc @ map snd (filter (binds isWhere) fs),
              assignments := assignments acc @ assigns isWhere (off + length (variables acc)) fs\<rparr>)"
proof (induction fs arbitrary: acc)
  case Nil
  show ?case by simp
next
  case (Cons entry rest)
  from Cons.prems have legal: "name_test (fst entry)" and rest: "\<forall>e \<in> set rest. name_test (fst e)"
    by simp_all
  show ?case
  proof (cases "binds isWhere entry")
    case True
    then show ?thesis
      by (simp add: step_legal [OF legal] Cons.IH [OF rest] upt_conv_Cons del: upt_Suc)
  next
    case False
    then show ?thesis
      by (simp add: step_legal [OF legal] Cons.IH [OF rest])
  qed
qed


lemma length_assigns: "length (assigns isWhere n fs) = length fs"
  by (induction fs arbitrary: n) simp_all

lemma assigns_nth:
  "i < length fs \<Longrightarrow> assigns isWhere n fs ! i =
     (if binds isWhere (fs ! i)
      then quoted (fst (fs ! i)) @ '' = ''
             @ placeholder (n + length (filter (binds isWhere) (take i fs)) + 1)
      else quoted (fst (fs ! i)) @ '' is null'')"
proof (induction fs arbitrary: n i)
  case Nil
  then show ?case by simp
next
  case (Cons entry rest)
  show ?case
  proof (cases i)
    case 0
    then show ?thesis by simp
  next
    case (Suc j)
    with Cons.prems have "j < length rest" by simp
    from Cons.IH [OF this] Suc show ?thesis by simp
  qed
qed

lemma splitUp_legal:
  assumes "\<forall>entry \<in> set fs. name_test (fst entry)"
  shows "splitUp fs isWhere off =
     Inr \<lparr>columns = map (\<lambda>entry. quoted (fst entry)) (filter (binds isWhere) fs),
          variables = map placeholder [off + 1 ..< off + 1 + length (filter (binds isWhere) fs)],
          params = map snd (filter (binds isWhere) fs),
          assignments = assigns isWhere off fs,
          whereSection = (if isWhere \<and> fs \<noteq> []
                          then '' where '' @ join '' and '' (assigns isWhere off fs) else [])\<rparr>"
proof -
  have "assigns b off fs = [] \<longleftrightarrow> fs = []" for b
    using length_assigns [of b off fs] by (metis length_0_conv)
  then show ?thesis
    by (simp add: splitUp_def reduce_legal [OF assms] initial_def)
qed

lemma legal_names: "\<forall>name \<in> fst ` set fs. spec_pattern name \<Longrightarrow> \<forall>entry \<in> set fs. name_test (fst entry)"
  by (simp add: name_test_iff)

text \<open>
  C1. In non-WHERE mode, for a field mapping of \<open>N\<close> entries (whose column names are
  legal identifiers, as a field mapping's are) and any offset \<open>O\<close>, \<^verbatim>\<open>splitUp\<close> returns
  exactly \<open>N\<close> quoted column names, exactly \<open>N\<close> placeholders, \<^verbatim>\<open>$(O+1)\<close> to
  \<^verbatim>\<open>$(O+N)\<close> in order, and the values of the mapping, in its order, as parameters.
\<close>

theorem splitUp_plain:
  assumes "\<forall>name \<in> fst ` set fs. spec_pattern name"
  shows "\<exists>r. splitUp fs False off = Inr r
     \<and> columns r = map (\<lambda>entry. quoted (fst entry)) fs \<and> length (columns r) = length fs
     \<and> variables r = map placeholder [off + 1 ..< off + length fs + 1]
     \<and> length (variables r) = length fs
     \<and> params r = map snd fs"
proof -
  have all: "filter (binds False) fs = fs" by (simp add: binds_def)
  have upto: "off + length fs + 1 = off + 1 + length fs" by simp
  show ?thesis
    unfolding upto by (simp add: splitUp_legal [OF legal_names [OF assms]] all del: upt_Suc)
qed

text \<open>
  C2. In WHERE mode an entry whose value is \<^verbatim>\<open>null\<close> becomes the assignment
  \<^verbatim>\<open>"column" is null\<close> and adds no placeholder and no parameter; every other entry
  becomes \<^verbatim>\<open>"column" = $k\<close>, \<open>k\<close> the next free number, and adds its value as one
  parameter. The WHERE clause is the empty string exactly when the mapping is empty;
  otherwise it is \<^verbatim>\<open> where \<close> followed by the assignments joined by \<^verbatim>\<open> and \<close>
  (the source writes the SQL keywords in lower case).
\<close>

theorem splitUp_where:
  assumes "\<forall>name \<in> fst ` set fs. spec_pattern name"
  shows "\<exists>r. splitUp fs True off = Inr r
     \<and> length (assignments r) = length fs
     \<and> (\<forall>i < length fs.
          assignments r ! i =
            (if snd (fs ! i) = VNull
             then quoted (fst (fs ! i)) @ '' is null''
             else quoted (fst (fs ! i)) @ '' = ''
                    @ placeholder (off + length (filter (\<lambda>entry. snd entry \<noteq> VNull) (take i fs)) + 1)))
     \<and> params r = map snd (filter (\<lambda>entry. snd entry \<noteq> VNull) fs)
     \<and> variables r = map placeholder [off + 1 ..< off + length (params r) + 1]
     \<and> columns r = map (\<lambda>entry. quoted (fst entry)) (filter (\<lambda>entry. snd entry \<noteq> VNull) fs)
     \<and> (whereSection r = [] \<longleftrightarrow> fs = [])
     \<and> (fs \<noteq> [] \<longrightarrow> whereSection r = '' where '' @ join '' and '' (assignments r))"
proof -
  have b: "binds True = (\<lambda>entry. snd entry \<noteq> VNull)" by (simp add: binds_def fun_eq_iff)
  have upto: "off + n + 1 = off + 1 + n" for n by simp
  show ?thesis
    unfolding upto
    by (simp add: splitUp_legal [OF legal_names [OF assms]] length_assigns assigns_nth b del: upt_Suc)
qed

lemma legal_example: "spec_pattern ''name'' \<and> spec_pattern ''age'' \<and> spec_pattern ''id''
    \<and> spec_pattern ''active'' \<and> spec_pattern ''users''"
  unfolding name_test_iff [symmetric]
  by (simp add: name_test_def rest_upto_iff first_class_def rest_class_def in_range_def)

theorem splitUp_plain_witness:
  "spec_pattern ''name'' \<and> spec_pattern ''age''
   \<and> (\<exists>r. splitUp [(''name'', VStr ''Alice''), (''age'', VNum 30)] False 2 = Inr r
        \<and> columns r = [''\"name\"'', ''\"age\"'']
        \<and> variables r = [''$3'', ''$4'']
        \<and> params r = [VStr ''Alice'', VNum 30])"
proof -
  have legal: "\<forall>name \<in> fst ` set [(''name'', VStr ''Alice''), (''age'', VNum 30)]. spec_pattern name"
    using legal_example by simp
  have numbered: "map placeholder [2 + 1 ..< 2 + length [(''name'', VStr ''Alice''), (''age'', VNum 30)] + 1]
      = [''$3'', ''$4'']"
    by code_simp
  from splitUp_plain [OF legal, of 2] numbered
  have "\<exists>r. splitUp [(''name'', VStr ''Alice''), (''age'', VNum 30)] False 2 = Inr r
        \<and> columns r = [''\"name\"'', ''\"age\"'']
        \<and> variables r = [''$3'', ''$4'']
        \<and> params r = [VStr ''Alice'', VNum 30]"
    by auto
  with legal_example show ?thesis by blast
qed

theorem splitUp_where_witness:
  "spec_pattern ''name'' \<and> spec_pattern ''active''
   \<and> (\<exists>r. splitUp [(''name'', VStr ''Alice''), (''active'', VNull)] True 0 = Inr r
        \<and> assignments r ! 0 = ''\"name\" = $1''
        \<and> assignments r ! 1 = ''\"active\" is null''
        \<and> params r = [VStr ''Alice'']
        \<and> variables r = [''$1'']
        \<and> whereSection r = '' where \"name\" = $1 and \"active\" is null'')"
proof -
  let ?fs = "[(''name'', VStr ''Alice''), (''active'', VNull)]"
  have legal: "\<forall>name \<in> fst ` set ?fs. spec_pattern name"
    using legal_example by simp
  from splitUp_where [OF legal, of 0] obtain r where r: "splitUp ?fs True 0 = Inr r"
    and len: "length (assignments r) = length ?fs"
    and nth: "\<forall>i < length ?fs.
          assignments r ! i =
            (if snd (?fs ! i) = VNull
             then quoted (fst (?fs ! i)) @ '' is null''
             else quoted (fst (?fs ! i)) @ '' = ''
                    @ placeholder (0 + length (filter (\<lambda>entry. snd entry \<noteq> VNull) (take i ?fs)) + 1))"
    and ps: "params r = map snd (filter (\<lambda>entry. snd entry \<noteq> VNull) ?fs)"
    and vs: "variables r = map placeholder [0 + 1 ..< 0 + length (params r) + 1]"
    and ws: "?fs \<noteq> [] \<longrightarrow> whereSection r = '' where '' @ join '' and '' (assignments r)"
    by blast
  have one: "showNat 1 = ''1''" "showNat (Suc 0) = ''1''"
    by (simp_all add: showNat.simps digits_def)
  from nth [rule_format, of 0] have a0: "assignments r ! 0 = ''\"name\" = $1''" by (simp add: one)
  from nth [rule_format, of 1] have a1: "assignments r ! 1 = ''\"active\" is null''" by simp
  from len have "assignments r = [assignments r ! 0, assignments r ! 1]"
    by (cases "assignments r"; cases "tl (assignments r)") auto
  with a0 a1 have as: "assignments r = [''\"name\" = $1'', ''\"active\" is null'']" by simp
  from ps have p: "params r = [VStr ''Alice'']" by simp
  from vs p have v: "variables r = [''$1'']" by (simp add: one)
  from ws as have w: "whereSection r = '' where \"name\" = $1 and \"active\" is null''" by simp
  from legal_example r a0 a1 p v w show ?thesis by blast
qed


lemma assigns_plain:
  "assigns False n fs =
     map2 (\<lambda>entry i. quoted (fst entry) @ '' = '' @ placeholder i) fs [Suc n ..< Suc (n + length fs)]"
proof (induction fs arbitrary: n)
  case Nil
  show ?case by simp
next
  case (Cons entry rest)
  have "[Suc n ..< Suc (n + length (entry # rest))] = Suc n # [Suc (Suc n) ..< Suc (Suc n + length rest)]"
    by (simp add: upt_conv_Cons del: upt_Suc)
  then show ?case by (simp add: Cons.IH [of "Suc n"] binds_def del: upt_Suc)
qed

lemma newParams_plain:
  "\<forall>d. VDate d \<notin> set ps \<Longrightarrow> map_throwing (convert fmt) ps = Inr ps"
proof (induction ps)
  case Nil
  show ?case by simp
next
  case (Cons p ps)
  then show ?case by (cases p) (auto simp: convert_def)
qed

lemma query_sent:
  "newParams (isoFormat rt) ps = Inr np \<Longrightarrow>
   query rt sql ps w = (fst (clientQuery rt sql np (db w)),
                        w\<lparr>db := snd (clientQuery rt sql np (db w)), sent := sent w @ [(sql, np)]\<rparr>)"
  by (simp add: query_def split: prod.splits)

lemma query2_sent:
  "newParams (isoFormat rt) (Some ps) = Inr np \<Longrightarrow> sent (snd (query2 rt sql ps w)) = sent w @ [(sql, np)]"
  by (simp add: query2_def query_sent split: prod.splits sum.splits)

section \<open>The statements of update and upsert\<close>

text \<open>
  C3, as the specification states it, counts every entry of the WHERE mapping. A WHERE
  entry whose value is \<^verbatim>\<open>null\<close> takes no placeholder: with one SET entry and one such
  WHERE entry the only placeholder is \<^verbatim>\<open>$1\<close>, not \<^verbatim>\<open>$1\<close> and \<^verbatim>\<open>$2\<close>.
\<close>

theorem update_fragments_counterexample:
  "splitUp [(''a'', VNum 1)] False 0 =
     Inr \<lparr>columns = [''\"a\"''], variables = [''$1''], params = [VNum 1],
          assignments = [''\"a\" = $1''], whereSection = []\<rparr>
   \<and> splitUp [(''b'', VNull)] True (length [VNum 1]) =
     Inr \<lparr>columns = [], variables = [], params = [],
          assignments = [''\"b\" is null''], whereSection = '' where \"b\" is null''\<rparr>
   \<and> [''$1''] @ [] \<noteq> [''$1'', ''$2'']
   \<and> update_sql ''t'' [(''a'', VNum 1)] [(''b'', VNull)] =
     Inr (''update \"t\" set \"a\" = $1 where \"b\" is null'', [VNum 1])"
  by code_simp

text \<open>
  C3, amended. For a SET mapping of \<open>N\<close> entries and a WHERE mapping of which \<open>M\<close> entries
  have a value other than \<^verbatim>\<open>null\<close> (legal names throughout), the SET fragment built at
  offset 0 has \<open>N\<close> parameters, the WHERE fragment built at that offset has \<open>M\<close>, the
  placeholders of the two together are \<^verbatim>\<open>$1\<close> \<dots> \<^verbatim>\<open>$(N+M)\<close>, no one twice, and the
  parameters are those of SET followed by those of WHERE; \<^verbatim>\<open>update\<close> builds its
  statement from exactly these two fragments.
\<close>

theorem update_fragments:
  assumes "\<forall>name \<in> fst ` set setFields. spec_pattern name"
    and "\<forall>name \<in> fst ` set whereFields. spec_pattern name"
    and "spec_pattern table"
  shows "\<exists>s w. splitUp setFields False 0 = Inr s
     \<and> splitUp whereFields True (length (params s)) = Inr w
     \<and> length (params s) = length setFields
     \<and> length (params w) = length (filter (\<lambda>entry. snd entry \<noteq> VNull) whereFields)
     \<and> variables s @ variables w = map placeholder [1 ..< length (params s) + length (params w) + 1]
     \<and> distinct (variables s @ variables w)
     \<and> params s @ params w
         = map snd setFields @ map snd (filter (\<lambda>entry. snd entry \<noteq> VNull) whereFields)
     \<and> update_sql table setFields whereFields
         = Inr (''update \"'' @ table @ ''\" set '' @ join '','' (assignments s) @ whereSection w,
                params s @ params w)"
proof -
  have plain: "filter (binds False) setFields = setFields" by (simp add: binds_def)
  have nonnull: "binds True = (\<lambda>entry. snd entry \<noteq> VNull)" by (simp add: binds_def fun_eq_iff)
  from splitUp_legal [OF legal_names [OF assms(1)], of False 0]
  obtain s where s: "splitUp setFields False 0 = Inr s"
    and vs: "variables s = map placeholder [0 + 1 ..< 0 + 1 + length setFields]"
    and ps: "params s = map snd setFields"
    by (simp add: plain)
  from splitUp_legal [OF legal_names [OF assms(2)], of True "length (params s)"]
  obtain w where w: "splitUp whereFields True (length (params s)) = Inr w"
    and pw: "params w = map snd (filter (\<lambda>entry. snd entry \<noteq> VNull) whereFields)"
    and vw: "variables w = map placeholder
       [length (params s) + 1 ..< length (params s) + 1 + length (params w)]"
    by (simp add: nonnull)
  have n: "length (params s) = length setFields" by (simp add: ps)
  have "[1 ..< length (params s) + length (params w) + 1]
      = [1 ..< length (params s) + 1] @ [length (params s) + 1 ..< length (params s) + length (params w) + 1]"
    by (metis (no_types) upt_add_eq_append add.assoc add.commute le_add1)
  then have all: "variables s @ variables w
      = map placeholder [1 ..< length (params s) + length (params w) + 1]"
    by (simp add: vs vw n add.commute add.left_commute del: upt_Suc)
  have d: "distinct (variables s @ variables w)"
    unfolding all by (rule placeholders_distinct)
  have u: "update_sql table setFields whereFields
         = Inr (''update \"'' @ table @ ''\" set '' @ join '','' (assignments s) @ whereSection w,
                params s @ params w)"
    by (simp add: update_sql_def s w checkName_legal [OF assms(3)])
  from s w n pw all d ps u show ?thesis by (intro exI [of _ s] exI [of _ w]) simp
qed


theorem update_fragments_witness:
  "spec_pattern ''age'' \<and> spec_pattern ''id'' \<and> spec_pattern ''active'' \<and> spec_pattern ''users''
   \<and> (\<exists>s w. splitUp [(''age'', VNum 31)] False 0 = Inr s
        \<and> splitUp [(''id'', VNum 5), (''active'', VNull)] True (length (params s)) = Inr w
        \<and> variables s @ variables w = [''$1'', ''$2'']
        \<and> distinct (variables s @ variables w)
        \<and> params s @ params w = [VNum 31, VNum 5]
        \<and> update_sql ''users'' [(''age'', VNum 31)] [(''id'', VNum 5), (''active'', VNull)]
            = Inr (''update \"users\" set '' @ join '','' (assignments s) @ whereSection w,
                   params s @ params w))"
proof -
  let ?set = "[(''age'', VNum 31)]" and ?where = "[(''id'', VNum 5), (''active'', VNull)]"
  have l1: "\<forall>name \<in> fst ` set ?set. spec_pattern name" using legal_example by simp
  have l2: "\<forall>name \<in> fst ` set ?where. spec_pattern name" using legal_example by simp
  have l3: "spec_pattern ''users''" using legal_example by simp
  from update_fragments [OF l1 l2 l3] obtain s w where
    s: "splitUp ?set False 0 = Inr s"
    and w: "splitUp ?where True (length (params s)) = Inr w"
    and n: "length (params s) = length ?set"
    and m: "length (params w) = length (filter (\<lambda>entry. snd entry \<noteq> VNull) ?where)"
    and v: "variables s @ variables w = map placeholder [1 ..< length (params s) + length (params w) + 1]"
    and d: "distinct (variables s @ variables w)"
    and p: "params s @ params w = map snd ?set @ map snd (filter (\<lambda>entry. snd entry \<noteq> VNull) ?where)"
    and u: "update_sql ''users'' ?set ?where
         = Inr (''update \"'' @ ''users'' @ ''\" set '' @ join '','' (assignments s) @ whereSection w,
                params s @ params w)"
    by blast
  have two: "map placeholder [1 ..< 1 + 1 + 1] = [''$1'', ''$2'']" by code_simp
  from v n m two have v': "variables s @ variables w = [''$1'', ''$2'']" by simp
  from p have p': "params s @ params w = [VNum 31, VNum 5]" by simp
  from u have u': "update_sql ''users'' ?set ?where
            = Inr (''update \"users\" set '' @ join '','' (assignments s) @ whereSection w,
                   params s @ params w)" by simp
  from s w v' d p' u' legal_example show ?thesis by blast
qed

text \<open>
  C6, as the specification states it, gives the text with upper-case keywords; the text that
  \<^verbatim>\<open>update\<close> builds has them in lower case.
\<close>

theorem update_example_counterexample:
  "update_sql ''users'' [(''age'', VNum 31)] [(''id'', VNum 5)]
     = Inr (''update \"users\" set \"age\" = $1 where \"id\" = $2'', [VNum 31, VNum 5])
   \<and> ''update \"users\" set \"age\" = $1 where \"id\" = $2''
     \<noteq> ''UPDATE \"users\" SET \"age\" = $1 WHERE \"id\" = $2''"
  by code_simp

text \<open>
  C6, amended. \<^verbatim>\<open>update("users", {age:31}, {id:5})\<close> hands the client exactly the text
  \<^verbatim>\<open>update "users" set "age" = $1 where "id" = $2\<close> with the parameters \<^verbatim>\<open>[31, 5]\<close>,
  whatever the client and the world.
\<close>

theorem update_example:
  "sent (snd (update rt ''users'' [(''age'', VNum 31)] [(''id'', VNum 5)] w))
     = sent w @ [(''update \"users\" set \"age\" = $1 where \"id\" = $2'', Some [VNum 31, VNum 5])]"
proof -
  have built: "update_sql ''users'' [(''age'', VNum 31)] [(''id'', VNum 5)]
     = Inr (''update \"users\" set \"age\" = $1 where \"id\" = $2'', [VNum 31, VNum 5])"
    by code_simp
  have np: "newParams (isoFormat rt) (Some [VNum 31, VNum 5]) = Inr (Some [VNum 31, VNum 5])"
    by (simp add: newParams_def convert_def)
  show ?thesis
    by (simp add: update_def execute_def built query2_sent [OF np])
qed

text \<open>
  C5, as the specification states it, gives the example's text with upper-case keywords and
  a space after the comma of the SET list; \<^verbatim>\<open>upsert\<close> writes lower-case keywords and joins
  every list with a bare comma.
\<close>

theorem upsert_statement_counterexample:
  "upsert_sql ''users'' [(''id'', VNum 1), (''name'', VStr ''Bob'')] [''id'']
     = Inr (''insert into \"users\" (\"id\",\"name\") values ($1,$2) on conflict (id) do update set \"id\" = $1,\"name\" = $2'',
            [VNum 1, VStr ''Bob''])
   \<and> ''insert into \"users\" (\"id\",\"name\") values ($1,$2) on conflict (id) do update set \"id\" = $1,\"name\" = $2''
     \<noteq> ''INSERT INTO \"users\" (\"id\",\"name\") VALUES ($1,$2) ON CONFLICT (id) DO UPDATE SET \"id\" = $1, \"name\" = $2''"
  by code_simp

text \<open>
  C5, amended. For a legal table name and legal column names, and any list \<^verbatim>\<open>unique\<close>
  whatsoever, the statement of \<^verbatim>\<open>upsert\<close> is
  \<^verbatim>\<open>insert into "table" (columns) values (placeholders) on conflict (unique) do update set assignments\<close>,
  every list joined by a comma, the assignments pairing each column with the placeholder it
  has in the values list, and the names of \<^verbatim>\<open>unique\<close> spliced in as they are, never
  passed to \<^verbatim>\<open>checkName\<close>. That statement is what \<^verbatim>\<open>upsert\<close> executes; for
  \<^verbatim>\<open>upsert("users", {id:1,name:"Bob"}, ["id"])\<close> the client receives
  \<^verbatim>\<open>insert into "users" ("id","name") values ($1,$2) on conflict (id) do update set "id" = $1,"name" = $2\<close>
  with the parameters \<^verbatim>\<open>[1, "Bob"]\<close>.
\<close>

theorem upsert_statement:
  "(spec_pattern table \<and> (\<forall>name \<in> fst ` set fs. spec_pattern name) \<longrightarrow>
      upsert_sql table fs unique =
        Inr (''insert into \"'' @ table @ ''\" (''
               @ join '','' (map (\<lambda>entry. quoted (fst entry)) fs)
               @ '') values ('' @ join '','' (map placeholder [1 ..< length fs + 1])
               @ '') on conflict ('' @ join '','' unique
               @ '') do update set ''
               @ join '','' (map2 (\<lambda>entry i. quoted (fst entry) @ '' = '' @ placeholder i)
                               fs [1 ..< length fs + 1]),
             map snd fs))
   \<and> upsert rt table fs unique = execute rt (upsert_sql table fs unique)
   \<and> sent (snd (upsert rt ''users'' [(''id'', VNum 1), (''name'', VStr ''Bob'')] [''id''] w))
       = sent w @ [(''insert into \"users\" (\"id\",\"name\") values ($1,$2) on conflict (id) do update set \"id\" = $1,\"name\" = $2'',
                    Some [VNum 1, VStr ''Bob''])]"
proof (intro conjI impI)
  assume legal: "spec_pattern table \<and> (\<forall>name \<in> fst ` set fs. spec_pattern name)"
  then have names: "\<forall>entry \<in> set fs. name_test (fst entry)" by (simp add: name_test_iff)
  have plain: "filter (binds False) fs = fs" by (simp add: binds_def)
  show "upsert_sql table fs unique =
        Inr (''insert into \"'' @ table @ ''\" (''
               @ join '','' (map (\<lambda>entry. quoted (fst entry)) fs)
               @ '') values ('' @ join '','' (map placeholder [1 ..< length fs + 1])
               @ '') on conflict ('' @ join '','' unique
               @ '') do update set ''
               @ join '','' (map2 (\<lambda>entry i. quoted (fst entry) @ '' = '' @ placeholder i)
                               fs [1 ..< length fs + 1]),
             map snd fs)"
    using legal
    by (simp add: upsert_sql_def splitUp_legal [OF names] checkName_legal plain assigns_plain
        del: upt_Suc)
next
  show "upsert rt table fs unique = execute rt (upsert_sql table fs unique)"
    by (simp add: upsert_def)
next
  have built: "upsert_sql ''users'' [(''id'', VNum 1), (''name'', VStr ''Bob'')] [''id'']
     = Inr (''insert into \"users\" (\"id\",\"name\") values ($1,$2) on conflict (id) do update set \"id\" = $1,\"name\" = $2'',
            [VNum 1, VStr ''Bob''])"
    by code_simp
  have np: "newParams (isoFormat rt) (Some [VNum 1, VStr ''Bob'']) = Inr (Some [VNum 1, VStr ''Bob''])"
    by (simp add: newParams_def convert_def)
  show "sent (snd (upsert rt ''users'' [(''id'', VNum 1), (''name'', VStr ''Bob'')] [''id''] w))
       = sent w @ [(''insert into \"users\" (\"id\",\"name\") values ($1,$2) on conflict (id) do update set \"id\" = $1,\"name\" = $2'',
                    Some [VNum 1, VStr ''Bob''])]"
    by (simp add: upsert_def execute_def built query2_sent [OF np])
qed


theorem upsert_statement_witness:
  "spec_pattern ''users'' \<and> spec_pattern ''id''
   \<and> checkName ''id) do nothing --'' = Inl (Error ''illegal name: id) do nothing --'')
   \<and> upsert_sql ''users'' [(''id'', VNum 1)] [''id) do nothing --'']
       = Inr (''insert into \"users\" (\"id\") values ($1) on conflict (id) do nothing --) do update set \"id\" = $1'',
              [VNum 1])"
proof -
  have legal: "spec_pattern ''users'' \<and> (\<forall>name \<in> fst ` set [(''id'', VNum 1)]. spec_pattern name)"
    using legal_example by simp
  have one: "showNat 1 = ''1''" "showNat (Suc 0) = ''1''"
    by (simp_all add: showNat.simps digits_def)
  have illegal: "checkName ''id) do nothing --'' = Inl (Error ''illegal name: id) do nothing --'')"
    by code_simp
  from upsert_statement [of "''users''" "[(''id'', VNum 1)]" "[''id) do nothing --'']", THEN conjunct1]
    legal
  have "upsert_sql ''users'' [(''id'', VNum 1)] [''id) do nothing --'']
       = Inr (''insert into \"users\" (\"id\") values ($1) on conflict (id) do nothing --) do update set \"id\" = $1'',
              [VNum 1])"
    by (simp add: one)
  with illegal legal_example show ?thesis by blast
qed



section \<open>The low-level query and the executed statements\<close>

lemma convert_valid:
  "\<forall>d. p = VDate d \<longrightarrow> timeValue d \<noteq> None \<Longrightarrow>
   convert fmt p = Inr (case p of VDate (Date (Some t)) \<Rightarrow> VStr (fmt t) | _ \<Rightarrow> p)"
proof (cases p)
  case (VDate d)
  assume "\<forall>d. p = VDate d \<longrightarrow> timeValue d \<noteq> None"
  with VDate have "timeValue d \<noteq> None" by simp
  then obtain t where "d = Date (Some t)" by (cases d) auto
  with VDate show ?thesis by (simp add: convert_def toISOString_def)
qed (simp_all add: convert_def)

lemma map_throwing_valid:
  "\<forall>d. VDate d \<in> set ps \<longrightarrow> timeValue d \<noteq> None \<Longrightarrow>
   map_throwing (convert fmt) ps
     = Inr (map (\<lambda>p. case p of VDate (Date (Some t)) \<Rightarrow> VStr (fmt t) | _ \<Rightarrow> p) ps)"
proof (induction ps)
  case Nil
  show ?case by simp
next
  case (Cons p ps)
  from Cons.prems have rest: "\<forall>d. VDate d \<in> set ps \<longrightarrow> timeValue d \<noteq> None" by auto
  from Cons.prems have this_one: "\<forall>d. p = VDate d \<longrightarrow> timeValue d \<noteq> None" by auto
  show ?case
    by (simp add: Cons.IH [OF rest] convert_valid [OF this_one])
qed

lemma convert_invalid: "convert fmt (VDate (Date None)) = Inl (RangeError ''Invalid time value'')"
  by (simp add: convert_def toISOString_def)

lemma convert_cases:
  "convert fmt p = Inl (RangeError ''Invalid time value'') \<or> (\<exists>q. convert fmt p = Inr q)"
  by (cases p) (auto simp: convert_def toISOString_def split: option.splits)

lemma map_throwing_invalid:
  "\<exists>d. VDate d \<in> set ps \<and> timeValue d = None \<Longrightarrow>
   map_throwing (convert fmt) ps = Inl (RangeError ''Invalid time value'')"
proof (induction ps)
  case Nil
  then show ?case by simp
next
  case (Cons p ps)
  show ?case
  proof (cases "\<exists>d. VDate d \<in> set ps \<and> timeValue d = None")
    case True
    from Cons.IH [OF True] convert_cases [of fmt p] show ?thesis by auto
  next
    case False
    with Cons.prems obtain d where "p = VDate d" and "timeValue d = None" by auto
    then have "p = VDate (Date None)" by (cases d) simp
    then show ?thesis by (simp add: convert_invalid)
  qed
qed

lemma execute_rejected:
  assumes "built = Inr (sql, ps)" and "newParams (isoFormat rt) (Some ps) = Inr np"
    and "clientQuery rt sql np (db w) = (Inl e, d)"
  shows "execute rt built w
     = (Inl e, w\<lparr>db := d, sent := sent w @ [(sql, np)], console := console w @ [e]\<rparr>)"
  by (simp add: execute_def query2_def query_sent [OF assms(2)] assms(1,3))

text \<open>
  C7. \<^verbatim>\<open>query\<close> hands the client the SQL text it was given and the parameter list in
  which every \<^verbatim>\<open>Date\<close> is replaced by the text \<^verbatim>\<open>toISOString\<close> gives it, every other
  parameter unchanged, each at its position. This is so whenever no \<^verbatim>\<open>Date\<close> of the
  list is invalid; an invalid one makes \<^verbatim>\<open>toISOString\<close> throw, and then nothing is
  handed to the client at all.
\<close>

theorem query_serialises_dates:
  "((\<forall>d. VDate d \<in> set ps \<longrightarrow> timeValue d \<noteq> None) \<longrightarrow>
      (\<exists>qs. qs = map (\<lambda>p. case p of VDate (Date (Some t)) \<Rightarrow> VStr (isoFormat rt t) | _ \<Rightarrow> p) ps
         \<and> query rt sql (Some ps) w
             = (fst (clientQuery rt sql (Some qs) (db w)),
                w\<lparr>db := snd (clientQuery rt sql (Some qs) (db w)),
                  sent := sent w @ [(sql, Some qs)]\<rparr>)))
   \<and> ((\<exists>d. VDate d \<in> set ps \<and> timeValue d = None) \<longrightarrow>
      query rt sql (Some ps) w = (Inl (RangeError ''Invalid time value''), w))"
proof (intro conjI impI)
  assume valid: "\<forall>d. VDate d \<in> set ps \<longrightarrow> timeValue d \<noteq> None"
  have "newParams (isoFormat rt) (Some ps)
      = Inr (Some (map (\<lambda>p. case p of VDate (Date (Some t)) \<Rightarrow> VStr (isoFormat rt t) | _ \<Rightarrow> p) ps))"
    by (simp add: newParams_def map_throwing_valid [OF valid])
  from query_sent [OF this]
  show "\<exists>qs. qs = map (\<lambda>p. case p of VDate (Date (Some t)) \<Rightarrow> VStr (isoFormat rt t) | _ \<Rightarrow> p) ps
         \<and> query rt sql (Some ps) w
             = (fst (clientQuery rt sql (Some qs) (db w)),
                w\<lparr>db := snd (clientQuery rt sql (Some qs) (db w)),
                  sent := sent w @ [(sql, Some qs)]\<rparr>)"
    by simp
next
  assume "\<exists>d. VDate d \<in> set ps \<and> timeValue d = None"
  from map_throwing_invalid [OF this]
  show "query rt sql (Some ps) w = (Inl (RangeError ''Invalid time value''), w)"
    by (simp add: query_def newParams_def)
qed

theorem query_serialises_dates_witness:
  "timeValue (Date (Some 0)) \<noteq> None
   \<and> query (testRuntime None []) ''select $1, $2, $3'' (Some [VNum 7, VDate (Date (Some 0)), VNull]) start
     = (Inr \<lparr>rows = []\<rparr>,
        \<lparr>db = 1,
         sent = [(''select $1, $2, $3'', Some [VNum 7, VStr ''1970-01-01T00:00:00.000Z'', VNull])],
         console = []\<rparr>)
   \<and> timeValue (Date None) = None
   \<and> query (testRuntime None []) ''select $1'' (Some [VDate (Date None)]) start
     = (Inl (RangeError ''Invalid time value''), start)"
proof -
  have valid: "\<forall>d. VDate d \<in> set [VNum 7, VDate (Date (Some 0)), VNull] \<longrightarrow> timeValue d \<noteq> None"
    by auto
  have invalid: "\<exists>d. VDate d \<in> set [VDate (Date None)] \<and> timeValue d = None"
    by auto
  from query_serialises_dates [of "[VNum 7, VDate (Date (Some 0)), VNull]" "testRuntime None []"
      "''select $1, $2, $3''" start, THEN conjunct1] valid
  have a: "query (testRuntime None []) ''select $1, $2, $3'' (Some [VNum 7, VDate (Date (Some 0)), VNull]) start
     = (Inr \<lparr>rows = []\<rparr>,
        \<lparr>db = 1,
         sent = [(''select $1, $2, $3'', Some [VNum 7, VStr ''1970-01-01T00:00:00.000Z'', VNull])],
         console = []\<rparr>)"
    by (simp add: testRuntime_def start_def)
  from query_serialises_dates [of "[VDate (Date None)]" "testRuntime None []" "''select $1''" start,
      THEN conjunct2] invalid
  have b: "query (testRuntime None []) ''select $1'' (Some [VDate (Date None)]) start
     = (Inl (RangeError ''Invalid time value''), start)"
    by blast
  from a b show ?thesis by simp
qed

text \<open>
  C8. When \<^verbatim>\<open>create\<close>, \<^verbatim>\<open>upsert\<close>, \<^verbatim>\<open>update\<close>, \<^verbatim>\<open>select\<close> or \<^verbatim>\<open>delete\<close> has built
  its statement and the client rejects it with an error, the operation rejects with that
  very error; the world after it differs from the world before by the client's new state,
  by that one call (no second attempt), and by one line on the console, the error.
\<close>

theorem driver_error_logged_and_rethrown:
  assumes "newParams (isoFormat rt) (Some ps) = Inr np"
    and "clientQuery rt sql np (db w) = (Inl e, d)"
  shows "(create_sql table fs = Inr (sql, ps) \<longrightarrow>
            create rt table fs w
              = (Inl e, w\<lparr>db := d, sent := sent w @ [(sql, np)], console := console w @ [e]\<rparr>))
     \<and> (upsert_sql table fs unique = Inr (sql, ps) \<longrightarrow>
            upsert rt table fs unique w
              = (Inl e, w\<lparr>db := d, sent := sent w @ [(sql, np)], console := console w @ [e]\<rparr>))
     \<and> (update_sql table fs conditions = Inr (sql, ps) \<longrightarrow>
            update rt table fs conditions w
              = (Inl e, w\<lparr>db := d, sent := sent w @ [(sql, np)], console := console w @ [e]\<rparr>))
     \<and> (select_sql table conditions = Inr (sql, ps) \<longrightarrow>
            select rt table conditions w
              = (Inl e, w\<lparr>db := d, sent := sent w @ [(sql, np)], console := console w @ [e]\<rparr>))
     \<and> (delete_sql table conditions = Inr (sql, ps) \<longrightarrow>
            delete rt table conditions w
              = (Inl e, w\<lparr>db := d, sent := sent w @ [(sql, np)], console := console w @ [e]\<rparr>))"
  unfolding create_def upsert_def update_def select_def delete_def
  using execute_rejected [OF _ assms] by blast

theorem driver_error_logged_and_rethrown_witness:
  "create (testRuntime (Some 0) []) ''users'' [(''name'', VStr ''Alice'')] start
     = (Inl (DriverError ''connection lost''),
        \<lparr>db = 1, sent = [(''insert into \"users\" (\"name\") values ($1)'', Some [VStr ''Alice''])],
         console = [DriverError ''connection lost'']\<rparr>)
   \<and> upsert (testRuntime (Some 0) []) ''users'' [(''id'', VNum 1)] [''id''] start
     = (Inl (DriverError ''connection lost''),
        \<lparr>db = 1,
         sent = [(''insert into \"users\" (\"id\") values ($1) on conflict (id) do update set \"id\" = $1'',
                  Some [VNum 1])],
         console = [DriverError ''connection lost'']\<rparr>)
   \<and> update (testRuntime (Some 0) []) ''users'' [(''age'', VNum 31)] [(''id'', VNum 5)] start
     = (Inl (DriverError ''connection lost''),
        \<lparr>db = 1,
         sent = [(''update \"users\" set \"age\" = $1 where \"id\" = $2'', Some [VNum 31, VNum 5])],
         console = [DriverError ''connection lost'']\<rparr>)
   \<and> select (testRuntime (Some 0) []) ''users'' [(''active'', VNull)] start
     = (Inl (DriverError ''connection lost''),
        \<lparr>db = 1, sent = [(''select * from \"users\" where \"active\" is null'', Some [])],
         console = [DriverError ''connection lost'']\<rparr>)
   \<and> delete (testRuntime (Some 0) []) ''users'' [] start
     = (Inl (DriverError ''connection lost''),
        \<lparr>db = 1, sent = [(''delete from \"users\"'', Some [])],
         console = [DriverError ''connection lost'']\<rparr>)"
proof -
  let ?rt = "testRuntime (Some 0) []"
  have np: "newParams (isoFormat ?rt) (Some [VStr ''Alice'']) = Inr (Some [VStr ''Alice''])"
    "newParams (isoFormat ?rt) (Some [VNum 1]) = Inr (Some [VNum 1])"
    "newParams (isoFormat ?rt) (Some [VNum 31, VNum 5]) = Inr (Some [VNum 31, VNum 5])"
    "newParams (isoFormat ?rt) (Some []) = Inr (Some [])"
    by (simp_all add: newParams_def convert_def)
  have cq: "clientQuery ?rt sql np (db start) = (Inl (DriverError ''connection lost''), 1)" for sql np
    by (simp add: testRuntime_def start_def)
  have c: "create_sql ''users'' [(''name'', VStr ''Alice'')]
      = Inr (''insert into \"users\" (\"name\") values ($1)'', [VStr ''Alice''])"
    by code_simp
  have u: "upsert_sql ''users'' [(''id'', VNum 1)] [''id'']
      = Inr (''insert into \"users\" (\"id\") values ($1) on conflict (id) do update set \"id\" = $1'',
             [VNum 1])"
    by code_simp
  have m: "update_sql ''users'' [(''age'', VNum 31)] [(''id'', VNum 5)]
      = Inr (''update \"users\" set \"age\" = $1 where \"id\" = $2'', [VNum 31, VNum 5])"
    by code_simp
  have s: "select_sql ''users'' [(''active'', VNull)]
      = Inr (''select * from \"users\" where \"active\" is null'', [])"
    by code_simp
  have d: "delete_sql ''users'' [] = Inr (''delete from \"users\"'', [])"
    by code_simp
  have 1: "create ?rt ''users'' [(''name'', VStr ''Alice'')] start
     = (Inl (DriverError ''connection lost''),
        \<lparr>db = 1, sent = [(''insert into \"users\" (\"name\") values ($1)'', Some [VStr ''Alice''])],
         console = [DriverError ''connection lost'']\<rparr>)"
    using driver_error_logged_and_rethrown [OF np(1) cq, where table = "''users''"
        and fs = "[(''name'', VStr ''Alice'')]"] c
    by (simp add: start_def)
  have 2: "upsert ?rt ''users'' [(''id'', VNum 1)] [''id''] start
     = (Inl (DriverError ''connection lost''),
        \<lparr>db = 1,
         sent = [(''insert into \"users\" (\"id\") values ($1) on conflict (id) do update set \"id\" = $1'',
                  Some [VNum 1])],
         console = [DriverError ''connection lost'']\<rparr>)"
    using driver_error_logged_and_rethrown [OF np(2) cq, where table = "''users''"
        and fs = "[(''id'', VNum 1)]" and unique = "[''id'']"] u
    by (simp add: start_def)
  have 3: "update ?rt ''users'' [(''age'', VNum 31)] [(''id'', VNum 5)] start
     = (Inl (DriverError ''connection lost''),
        \<lparr>db = 1,
         sent = [(''update \"users\" set \"age\" = $1 where \"id\" = $2'', Some [VNum 31, VNum 5])],
         console = [DriverError ''connection lost'']\<rparr>)"
    using driver_error_logged_and_rethrown [OF np(3) cq, where table = "''users''"
        and fs = "[(''age'', VNum 31)]" and conditions = "[(''id'', VNum 5)]"] m
    by (simp add: start_def)
  have 4: "select ?rt ''users'' [(''active'', VNull)] start
     = (Inl (DriverError ''connection lost''),
        \<lparr>db = 1, sent = [(''select * from \"users\" where \"active\" is null'', Some [])],
         console = [DriverError ''connection lost'']\<rparr>)"
    using driver_error_logged_and_rethrown [OF np(4) cq, where table = "''users''"
        and conditions = "[(''active'', VNull)]"] s
    by (simp add: start_def)
  have 5: "delete ?rt ''users'' [] start
     = (Inl (DriverError ''connection lost''),
        \<lparr>db = 1, sent = [(''delete from \"users\"'', Some [])],
         console = [DriverError ''connection lost'']\<rparr>)"
    using driver_error_logged_and_rethrown [OF np(4) cq, where table = "''users''"
        and conditions = "[]"] d
    by (simp add: start_def)
  from 1 2 3 4 5 show ?thesis by blast
qed

text \<open>
  C10. For a legal table name and any id, \<^verbatim>\<open>getItemById\<close> sends
  \<^verbatim>\<open>select * from "table" where "id" = $1\<close> with the id; when the client answers, the
  promise resolves: with the absent value if the answer has no rows, with the first row
  otherwise.
\<close>

theorem getItemById_first_or_absent:
  assumes "spec_pattern t"
    and "clientQuery rt (''select * from \"'' @ t @ ''\" where \"id\" = $1'') (Some [id_val i]) (db w)
           = (Inr qr, d)"
  shows "getItemById rt t i w
     = (Inr (case rows qr of [] \<Rightarrow> None | r # _ \<Rightarrow> Some r),
        w\<lparr>db := d,
          sent := sent w @ [(''select * from \"'' @ t @ ''\" where \"id\" = $1'', Some [id_val i])]\<rparr>)
     \<and> (rows qr = [] \<longrightarrow> fst (getItemById rt t i w) = Inr None)
     \<and> (\<forall>r rs. rows qr = r # rs \<longrightarrow> fst (getItemById rt t i w) = Inr (Some r))"
proof -
  have no_null: "id_val i \<noteq> VNull" by (cases i) simp_all
  have no_date: "\<forall>d. VDate d \<notin> set [id_val i]" by (cases i) simp_all
  have names: "\<forall>entry \<in> set [(''id'', id_val i)]. name_test (fst entry)"
    using legal_example by (simp add: name_test_iff)
  have one: "showNat (Suc 0) = ''1''" by (simp add: showNat.simps digits_def)
  have built: "select_sql t [(''id'', id_val i)]
      = Inr (''select * from \"'' @ t @ ''\" where \"id\" = $1'', [id_val i])"
    by (simp add: select_sql_def splitUp_legal [OF names] checkName_legal [OF assms(1)]
        binds_def no_null one)
  have np: "newParams (isoFormat rt) (Some [id_val i]) = Inr (Some [id_val i])"
    by (simp add: newParams_def newParams_plain [OF no_date] del: map_throwing.simps)
  have "getItemById rt t i w
     = (Inr (case rows qr of [] \<Rightarrow> None | r # _ \<Rightarrow> Some r),
        w\<lparr>db := d,
          sent := sent w @ [(''select * from \"'' @ t @ ''\" where \"id\" = $1'', Some [id_val i])]\<rparr>)"
    using assms(2)
    by (simp add: getItemById_def await_def select_def execute_def built query2_def
        query_sent [OF np])
  then show ?thesis by simp
qed


theorem getItemById_first_or_absent_witness:
  "spec_pattern ''users''
   \<and> getItemById (testRuntime None []) ''users'' (IdNum 5) start
       = (Inr None,
          \<lparr>db = 1, sent = [(''select * from \"users\" where \"id\" = $1'', Some [VNum 5])], console = []\<rparr>)
   \<and> getItemById (testRuntime None [[(''id'', VNum 5)], [(''id'', VNum 6)]]) ''users'' (IdNum 5) start
       = (Inr (Some [(''id'', VNum 5)]),
          \<lparr>db = 1, sent = [(''select * from \"users\" where \"id\" = $1'', Some [VNum 5])], console = []\<rparr>)"
proof -
  have t: "spec_pattern ''users''" using legal_example by simp
  have none: "clientQuery (testRuntime None [])
        (''select * from \"'' @ ''users'' @ ''\" where \"id\" = $1'') (Some [id_val (IdNum 5)]) (db start)
      = (Inr \<lparr>rows = []\<rparr>, 1)"
    by (simp add: testRuntime_def start_def)
  have some: "clientQuery (testRuntime None [[(''id'', VNum 5)], [(''id'', VNum 6)]])
        (''select * from \"'' @ ''users'' @ ''\" where \"id\" = $1'') (Some [id_val (IdNum 5)]) (db start)
      = (Inr \<lparr>rows = [[(''id'', VNum 5)], [(''id'', VNum 6)]]\<rparr>, 1)"
    by (simp add: testRuntime_def start_def)
  from getItemById_first_or_absent [OF t none, THEN conjunct1]
  have a: "getItemById (testRuntime None []) ''users'' (IdNum 5) start
       = (Inr None,
          \<lparr>db = 1, sent = [(''select * from \"users\" where \"id\" = $1'', Some [VNum 5])], console = []\<rparr>)"
    by (simp add: start_def)
  from getItemById_first_or_absent [OF t some, THEN conjunct1]
  have b: "getItemById (testRuntime None [[(''id'', VNum 5)], [(''id'', VNum 6)]]) ''users'' (IdNum 5) start
       = (Inr (Some [(''id'', VNum 5)]),
          \<lparr>db = 1, sent = [(''select * from \"users\" where \"id\" = $1'', Some [VNum 5])], console = []\<rparr>)"
    by (simp add: start_def)
  from t a b show ?thesis by blast
qed


section \<open>Batches\<close>

lemma query_plain:
  "query rt sql None w
     = (fst (clientQuery rt sql None (db w)),
        w\<lparr>db := snd (clientQuery rt sql None (db w)), sent := sent w @ [(sql, None)]\<rparr>)"
  by (rule query_sent) (simp add: newParams_def)

lemma query_plain_sent: "query rt sql None w = (res, w') \<Longrightarrow> sent w' = sent w @ [(sql, None)]"
  by (auto simp: query_plain)

lemma execute_sent:
  "sent (snd (execute rt built w))
     = sent w @ (case call_of (isoFormat rt) built of None \<Rightarrow> [] | Some c \<Rightarrow> [c])"
proof (cases built)
  case (Inl e)
  then show ?thesis by (simp add: execute_def call_of_def)
next
  case (Inr stmt)
  obtain sql ps where stmt: "stmt = (sql, ps)" by (cases stmt)
  show ?thesis
  proof (cases "newParams (isoFormat rt) (Some ps)")
    case failed: (Inl e)
    then show ?thesis
      by (simp add: Inr stmt execute_def call_of_def query2_def query_def)
  next
    case ok: (Inr np)
    from query2_sent [OF ok] show ?thesis
      by (simp add: Inr stmt execute_def call_of_def ok)
  qed
qed

lemma execute_ok: "execute rt built w = (Inr r, w') \<Longrightarrow> \<exists>c. call_of (isoFormat rt) built = Some c"
  by (auto simp: execute_def call_of_def query2_def query_def split: sum.splits prod.splits)

lemma call_of_params: "call_of fmt built = Some c \<Longrightarrow> snd c \<noteq> None"
  by (auto simp: call_of_def newParams_def split: sum.splits prod.splits)

lemma for_of_ok_sent:
  "for_of xs (\<lambda>x. execute rt (f x)) w = (Inr (), w') \<Longrightarrow>
   \<exists>calls. map (\<lambda>x. call_of (isoFormat rt) (f x)) xs = map Some calls \<and> sent w' = sent w @ calls"
proof (induction xs arbitrary: w)
  case Nil
  then show ?case by simp
next
  case (Cons x xs)
  from Cons.prems obtain r w1 where first: "execute rt (f x) w = (Inr r, w1)"
    and rest: "for_of xs (\<lambda>x. execute rt (f x)) w1 = (Inr (), w')"
    by (auto split: prod.splits sum.splits)
  from execute_ok [OF first] obtain c where c: "call_of (isoFormat rt) (f x) = Some c" by blast
  from execute_sent [of rt "f x" w] first c have s1: "sent w1 = sent w @ [c]" by simp
  from Cons.IH [OF rest] obtain calls
    where calls: "map (\<lambda>x. call_of (isoFormat rt) (f x)) xs = map Some calls"
      and s2: "sent w' = sent w1 @ calls"
    by blast
  from c calls s1 s2 show ?case
    by (intro exI [of _ "c # calls"]) simp
qed

lemma for_of_stops:
  "for_of pre body w = (Inr (), w1) \<Longrightarrow> body x w1 = (Inl e, w2) \<Longrightarrow>
   for_of (pre @ x # post) body w = (Inl e, w2)"
proof (induction pre arbitrary: w)
  case Nil
  then show ?case by simp
next
  case (Cons y ys)
  from Cons.prems(1) obtain r w0 where first: "body y w = (Inr r, w0)"
    and rest: "for_of ys body w0 = (Inr (), w1)"
    by (auto split: prod.splits sum.splits)
  from Cons.IH [OF rest Cons.prems(2)] first show ?case by simp
qed

lemma batch_ok:
  assumes "await (query rt ''begin'' None) (\<lambda>_.
           await (query rt ''SET CONSTRAINTS fk_parent DEFERRED'' None) (\<lambda>_.
           await (for_of xs (\<lambda>x. execute rt (f x))) (\<lambda>_.
           await (query rt ''commit'' None) (\<lambda>_ w. (Inr (), w))))) w = (Inr (), w')"
  shows "\<exists>calls. map (\<lambda>x. call_of (isoFormat rt) (f x)) xs = map Some calls
     \<and> sent w' = sent w @ [(''begin'', None), (''SET CONSTRAINTS fk_parent DEFERRED'', None)]
                   @ calls @ [(''commit'', None)]"
proof -
  from assms obtain a w1 where 1: "query rt ''begin'' None w = (Inr a, w1)"
    and r1: "await (query rt ''SET CONSTRAINTS fk_parent DEFERRED'' None) (\<lambda>_.
           await (for_of xs (\<lambda>x. execute rt (f x))) (\<lambda>_.
           await (query rt ''commit'' None) (\<lambda>_ w. (Inr (), w)))) w1 = (Inr (), w')"
    by (auto simp: await_def [of "query rt ''begin'' None"] split: prod.splits sum.splits)
  from r1 obtain b w2 where 2: "query rt ''SET CONSTRAINTS fk_parent DEFERRED'' None w1 = (Inr b, w2)"
    and r2: "await (for_of xs (\<lambda>x. execute rt (f x))) (\<lambda>_.
           await (query rt ''commit'' None) (\<lambda>_ w. (Inr (), w))) w2 = (Inr (), w')"
    by (auto simp: await_def [of "query rt ''SET CONSTRAINTS fk_parent DEFERRED'' None"]
        split: prod.splits sum.splits)
  from r2 obtain w3 where 3: "for_of xs (\<lambda>x. execute rt (f x)) w2 = (Inr (), w3)"
    and r3: "await (query rt ''commit'' None) (\<lambda>_ w. (Inr (), w)) w3 = (Inr (), w')"
    by (auto simp: await_def [of "for_of xs (\<lambda>x. execute rt (f x))"] split: prod.splits sum.splits)
  from r3 obtain c where 4: "query rt ''commit'' None w3 = (Inr c, w')"
    by (auto simp: await_def split: prod.splits sum.splits)
  from for_of_ok_sent [OF 3] obtain calls
    where calls: "map (\<lambda>x. call_of (isoFormat rt) (f x)) xs = map Some calls"
      and s3: "sent w3 = sent w2 @ calls"
    by blast
  from query_plain_sent [OF 1] query_plain_sent [OF 2] s3 query_plain_sent [OF 4] calls
  show ?thesis by simp
qed

lemma batch_stops:
  assumes "query rt ''begin'' None w = (Inr a, w1)"
    and "query rt ''SET CONSTRAINTS fk_parent DEFERRED'' None w1 = (Inr b, w2)"
    and "for_of pre (\<lambda>x. execute rt (f x)) w2 = (Inr (), w3)"
    and "execute rt (f x) w3 = (Inl e, w4)"
  shows "await (query rt ''begin'' None) (\<lambda>_.
         await (query rt ''SET CONSTRAINTS fk_parent DEFERRED'' None) (\<lambda>_.
         await (for_of (pre @ x # post) (\<lambda>x. execute rt (f x))) (\<lambda>_.
         await (query rt ''commit'' None) (\<lambda>_ w. (Inr (), w))))) w = (Inl e, w4)
     \<and> (\<exists>calls. map (\<lambda>x. call_of (isoFormat rt) (f x)) pre = map Some calls
          \<and> sent w4 = sent w @ [(''begin'', None), (''SET CONSTRAINTS fk_parent DEFERRED'', None)]
                @ calls @ (case call_of (isoFormat rt) (f x) of None \<Rightarrow> [] | Some c \<Rightarrow> [c]))
     \<and> (''commit'', None) \<notin> set (drop (length (sent w)) (sent w4))"
proof -
  have stop: "for_of (pre @ x # post) (\<lambda>x. execute rt (f x)) w2 = (Inl e, w4)"
    by (rule for_of_stops [OF assms(3)]) (rule assms(4))
  have result: "await (query rt ''begin'' None) (\<lambda>_.
         await (query rt ''SET CONSTRAINTS fk_parent DEFERRED'' None) (\<lambda>_.
         await (for_of (pre @ x # post) (\<lambda>x. execute rt (f x))) (\<lambda>_.
         await (query rt ''commit'' None) (\<lambda>_ w. (Inr (), w))))) w = (Inl e, w4)"
    by (simp add: await_def assms(1,2) stop)
  from for_of_ok_sent [OF assms(3)] obtain calls
    where calls: "map (\<lambda>x. call_of (isoFormat rt) (f x)) pre = map Some calls"
      and s3: "sent w3 = sent w2 @ calls"
    by blast
  from execute_sent [of rt "f x" w3] assms(4)
  have s4: "sent w4 = sent w3 @ (case call_of (isoFormat rt) (f x) of None \<Rightarrow> [] | Some c \<Rightarrow> [c])"
    by simp
  from query_plain_sent [OF assms(1)] query_plain_sent [OF assms(2)] s3 s4
  have trace: "sent w4 = sent w @ [(''begin'', None), (''SET CONSTRAINTS fk_parent DEFERRED'', None)]
                @ calls @ (case call_of (isoFormat rt) (f x) of None \<Rightarrow> [] | Some c \<Rightarrow> [c])"
    by simp
  have "snd c \<noteq> None" if "c \<in> set calls" for c
  proof -
    from that have "Some c \<in> set (map Some calls)" by simp
    with calls obtain y where "call_of (isoFormat rt) (f y) = Some c" by (metis (no_types, lifting) imageE list.set_map)
    then show ?thesis by (rule call_of_params)
  qed
  then have no1: "(''commit'', None) \<notin> set calls" by force
  have no2: "(''commit'', None) \<notin> set (case call_of (isoFormat rt) (f x) of None \<Rightarrow> [] | Some c \<Rightarrow> [c])"
    using call_of_params [of "isoFormat rt" "f x" "(''commit'', None)"]
    by (cases "call_of (isoFormat rt) (f x)") auto
  from no1 no2 have no: "(''commit'', None) \<notin> set (drop (length (sent w)) (sent w4))"
    by (simp add: trace)
  from result calls trace no show ?thesis by blast
qed


lemma delete_by_id_call:
  assumes "spec_pattern t"
  shows "call_of fmt (delete_sql t [(''id'', id_val i)])
     = Some (''delete from \"'' @ t @ ''\" where \"id\" = $1'', Some [id_val i])"
proof -
  have no_null: "id_val i \<noteq> VNull" by (cases i) simp_all
  have no_date: "\<forall>d. VDate d \<notin> set [id_val i]" by (cases i) simp_all
  have names: "\<forall>entry \<in> set [(''id'', id_val i)]. name_test (fst entry)"
    using legal_example by (simp add: name_test_iff)
  have one: "showNat (Suc 0) = ''1''" by (simp add: showNat.simps digits_def)
  have built: "delete_sql t [(''id'', id_val i)]
      = Inr (''delete from \"'' @ t @ ''\" where \"id\" = $1'', [id_val i])"
    by (simp add: delete_sql_def splitUp_legal [OF names] checkName_legal [OF assms]
        binds_def no_null one)
  have np: "newParams fmt (Some [id_val i]) = Inr (Some [id_val i])"
    by (simp add: newParams_def newParams_plain [OF no_date] del: map_throwing.simps)
  show ?thesis by (simp add: call_of_def built np)
qed

text \<open>
  C9. A call of \<^verbatim>\<open>writeRows\<close> that resolves has handed the client, in this order,
  \<^verbatim>\<open>begin\<close>, \<^verbatim>\<open>SET CONSTRAINTS fk_parent DEFERRED\<close>, the statement of one upsert for
  each row, in the order of the rows, and \<^verbatim>\<open>commit\<close> (the source writes \<^verbatim>\<open>begin\<close> and
  \<^verbatim>\<open>commit\<close> in lower case). When the upserts of the rows before some row have resolved
  and the upsert of that row rejects, \<^verbatim>\<open>writeRows\<close> rejects with the same error and the
  world is left as that upsert left it: the calls are \<^verbatim>\<open>begin\<close>, the \<^verbatim>\<open>SET\<close>, the
  statements of the rows before and at most that of the failing row; no later row is
  touched and \<^verbatim>\<open>commit\<close> is not among the calls. The same holds of \<^verbatim>\<open>deleteRows\<close>,
  whose statement for an id is \<^verbatim>\<open>delete from "table" where "id" = $1\<close> with that id.
\<close>

theorem batch_sequence:
  "(writeRows rt t rowList unique w = (Inr (), w') \<longrightarrow>
      (\<exists>calls. map (\<lambda>row. call_of (isoFormat rt) (upsert_sql t row unique)) rowList = map Some calls
         \<and> sent w' = sent w @ [(''begin'', None), (''SET CONSTRAINTS fk_parent DEFERRED'', None)]
                        @ calls @ [(''commit'', None)]))
   \<and> (query rt ''begin'' None w = (Inr a, w1)
        \<and> query rt ''SET CONSTRAINTS fk_parent DEFERRED'' None w1 = (Inr b, w2)
        \<and> for_of pre (\<lambda>row. upsert rt t row unique) w2 = (Inr (), w3)
        \<and> upsert rt t row unique w3 = (Inl e, w4) \<longrightarrow>
      writeRows rt t (pre @ row # post) unique w = (Inl e, w4)
      \<and> (\<exists>calls. map (\<lambda>row. call_of (isoFormat rt) (upsert_sql t row unique)) pre = map Some calls
           \<and> sent w4 = sent w @ [(''begin'', None), (''SET CONSTRAINTS fk_parent DEFERRED'', None)]
                 @ calls
                 @ (case call_of (isoFormat rt) (upsert_sql t row unique) of None \<Rightarrow> [] | Some c \<Rightarrow> [c]))
      \<and> (''commit'', None) \<notin> set (drop (length (sent w)) (sent w4)))
   \<and> (deleteRows rt t ids w = (Inr (), w') \<longrightarrow>
      (\<exists>calls. map (\<lambda>i. call_of (isoFormat rt) (delete_sql t [(''id'', id_val i)])) ids = map Some calls
         \<and> sent w' = sent w @ [(''begin'', None), (''SET CONSTRAINTS fk_parent DEFERRED'', None)]
                        @ calls @ [(''commit'', None)]))
   \<and> (query rt ''begin'' None w = (Inr a, w1)
        \<and> query rt ''SET CONSTRAINTS fk_parent DEFERRED'' None w1 = (Inr b, w2)
        \<and> for_of before (\<lambda>i. delete rt t [(''id'', id_val i)]) w2 = (Inr (), w3)
        \<and> delete rt t [(''id'', id_val i)] w3 = (Inl e, w4) \<longrightarrow>
      deleteRows rt t (before @ i # after) w = (Inl e, w4)
      \<and> (\<exists>calls. map (\<lambda>i. call_of (isoFormat rt) (delete_sql t [(''id'', id_val i)])) before
                    = map Some calls
           \<and> sent w4 = sent w @ [(''begin'', None), (''SET CONSTRAINTS fk_parent DEFERRED'', None)]
                 @ calls
                 @ (case call_of (isoFormat rt) (delete_sql t [(''id'', id_val i)]) of
                      None \<Rightarrow> [] | Some c \<Rightarrow> [c]))
      \<and> (''commit'', None) \<notin> set (drop (length (sent w)) (sent w4)))
   \<and> (spec_pattern t \<longrightarrow>
      call_of (isoFormat rt) (delete_sql t [(''id'', id_val i)])
        = Some (''delete from \"'' @ t @ ''\" where \"id\" = $1'', Some [id_val i]))"
proof -
  have write_ok: "writeRows rt t rowList unique w = (Inr (), w') \<longrightarrow>
      (\<exists>calls. map (\<lambda>row. call_of (isoFormat rt) (upsert_sql t row unique)) rowList = map Some calls
         \<and> sent w' = sent w @ [(''begin'', None), (''SET CONSTRAINTS fk_parent DEFERRED'', None)]
                        @ calls @ [(''commit'', None)])"
    unfolding writeRows_def upsert_def by (rule impI) (rule batch_ok)
  have write_stops: "query rt ''begin'' None w = (Inr a, w1)
        \<and> query rt ''SET CONSTRAINTS fk_parent DEFERRED'' None w1 = (Inr b, w2)
        \<and> for_of pre (\<lambda>row. upsert rt t row unique) w2 = (Inr (), w3)
        \<and> upsert rt t row unique w3 = (Inl e, w4) \<longrightarrow>
      writeRows rt t (pre @ row # post) unique w = (Inl e, w4)
      \<and> (\<exists>calls. map (\<lambda>row. call_of (isoFormat rt) (upsert_sql t row unique)) pre = map Some calls
           \<and> sent w4 = sent w @ [(''begin'', None), (''SET CONSTRAINTS fk_parent DEFERRED'', None)]
                 @ calls
                 @ (case call_of (isoFormat rt) (upsert_sql t row unique) of None \<Rightarrow> [] | Some c \<Rightarrow> [c]))
      \<and> (''commit'', None) \<notin> set (drop (length (sent w)) (sent w4))"
    unfolding writeRows_def upsert_def
    by (rule impI) (elim conjE, rule batch_stops)
  have delete_ok: "deleteRows rt t ids w = (Inr (), w') \<longrightarrow>
      (\<exists>calls. map (\<lambda>i. call_of (isoFormat rt) (delete_sql t [(''id'', id_val i)])) ids = map Some calls
         \<and> sent w' = sent w @ [(''begin'', None), (''SET CONSTRAINTS fk_parent DEFERRED'', None)]
                        @ calls @ [(''commit'', None)])"
    unfolding deleteRows_def delete_def
    by (rule impI) (rule batch_ok [where f = "\<lambda>i. delete_sql t [(''id'', id_val i)]"])
  have delete_stops: "query rt ''begin'' None w = (Inr a, w1)
        \<and> query rt ''SET CONSTRAINTS fk_parent DEFERRED'' None w1 = (Inr b, w2)
        \<and> for_of before (\<lambda>i. delete rt t [(''id'', id_val i)]) w2 = (Inr (), w3)
        \<and> delete rt t [(''id'', id_val i)] w3 = (Inl e, w4) \<longrightarrow>
      deleteRows rt t (before @ i # after) w = (Inl e, w4)
      \<and> (\<exists>calls. map (\<lambda>i. call_of (isoFormat rt) (delete_sql t [(''id'', id_val i)])) before
                    = map Some calls
           \<and> sent w4 = sent w @ [(''begin'', None), (''SET CONSTRAINTS fk_parent DEFERRED'', None)]
                 @ calls
                 @ (case call_of (isoFormat rt) (delete_sql t [(''id'', id_val i)]) of
                      None \<Rightarrow> [] | Some c \<Rightarrow> [c]))
      \<and> (''commit'', None) \<notin> set (drop (length (sent w)) (sent w4))"
    unfolding deleteRows_def delete_def
    by (rule impI) (elim conjE, rule batch_stops [where f = "\<lambda>i. delete_sql t [(''id'', id_val i)]"])
  have by_id: "spec_pattern t \<longrightarrow>
      call_of (isoFormat rt) (delete_sql t [(''id'', id_val i)])
        = Some (''delete from \"'' @ t @ ''\" where \"id\" = $1'', Some [id_val i])"
    by (rule impI) (rule delete_by_id_call)
  show ?thesis
    by (intro conjI write_ok write_stops delete_ok delete_stops by_id)
qed


theorem batch_sequence_witness:
  "writeRows (testRuntime None []) ''users'' [[(''id'', VNum 1)], [(''id'', VNum 2)]] [''id''] start
     = (Inr (), \<lparr>db = 5,
          sent = [(''begin'', None), (''SET CONSTRAINTS fk_parent DEFERRED'', None),
                  (''insert into \"users\" (\"id\") values ($1) on conflict (id) do update set \"id\" = $1'',
                   Some [VNum 1]),
                  (''insert into \"users\" (\"id\") values ($1) on conflict (id) do update set \"id\" = $1'',
                   Some [VNum 2]),
                  (''commit'', None)],
          console = []\<rparr>)
   \<and> writeRows (testRuntime (Some 3) []) ''users''
         ([[(''id'', VNum 1)]] @ [(''id'', VNum 2)] # [[(''id'', VNum 3)]]) [''id''] start
     = (Inl (DriverError ''connection lost''), \<lparr>db = 4,
          sent = [(''begin'', None), (''SET CONSTRAINTS fk_parent DEFERRED'', None),
                  (''insert into \"users\" (\"id\") values ($1) on conflict (id) do update set \"id\" = $1'',
                   Some [VNum 1]),
                  (''insert into \"users\" (\"id\") values ($1) on conflict (id) do update set \"id\" = $1'',
                   Some [VNum 2])],
          console = [DriverError ''connection lost'']\<rparr>)
   \<and> deleteRows (testRuntime None []) ''users'' [IdNum 1, IdStr ''b''] start
     = (Inr (), \<lparr>db = 5,
          sent = [(''begin'', None), (''SET CONSTRAINTS fk_parent DEFERRED'', None),
                  (''delete from \"users\" where \"id\" = $1'', Some [VNum 1]),
                  (''delete from \"users\" where \"id\" = $1'', Some [VStr ''b'']),
                  (''commit'', None)],
          console = []\<rparr>)
   \<and> deleteRows (testRuntime (Some 2) []) ''users'' ([] @ IdNum 1 # [IdStr ''b'']) start
     = (Inl (DriverError ''connection lost''), \<lparr>db = 3,
          sent = [(''begin'', None), (''SET CONSTRAINTS fk_parent DEFERRED'', None),
                  (''delete from \"users\" where \"id\" = $1'', Some [VNum 1])],
          console = [DriverError ''connection lost'']\<rparr>)
   \<and> spec_pattern ''users''
   \<and> call_of (isoFormat (testRuntime None [])) (delete_sql ''users'' [(''id'', id_val (IdNum 1))])
     = Some (''delete from \"users\" where \"id\" = $1'', Some [VNum 1])
   \<and> (\<exists>calls. map (\<lambda>row. call_of (isoFormat (testRuntime None [])) (upsert_sql ''users'' row [''id'']))
                   [[(''id'', VNum 1)], [(''id'', VNum 2)]] = map Some calls
        \<and> sent (snd (writeRows (testRuntime None []) ''users''
                         [[(''id'', VNum 1)], [(''id'', VNum 2)]] [''id''] start))
            = sent start @ [(''begin'', None), (''SET CONSTRAINTS fk_parent DEFERRED'', None)]
                @ calls @ [(''commit'', None)])
   \<and> (\<exists>calls. map (\<lambda>i. call_of (isoFormat (testRuntime None [])) (delete_sql ''users'' [(''id'', id_val i)]))
                   [IdNum 1, IdStr ''b''] = map Some calls
        \<and> sent (snd (deleteRows (testRuntime None []) ''users'' [IdNum 1, IdStr ''b''] start))
            = sent start @ [(''begin'', None), (''SET CONSTRAINTS fk_parent DEFERRED'', None)]
                @ calls @ [(''commit'', None)])"
proof -
  let ?good = "testRuntime None [] :: nat runtime"
  let ?insert = "''insert into \"users\" (\"id\") values ($1) on conflict (id) do update set \"id\" = $1''"
  let ?delete = "''delete from \"users\" where \"id\" = $1''"
  let ?w1 = "\<lparr>db = 1, sent = [(''begin'', None)], console = []\<rparr> :: nat world"
  let ?w2 = "\<lparr>db = 2, sent = [(''begin'', None), (''SET CONSTRAINTS fk_parent DEFERRED'', None)],
              console = []\<rparr> :: nat world"
  let ?w3 = "\<lparr>db = 3, sent = [(''begin'', None), (''SET CONSTRAINTS fk_parent DEFERRED'', None),
              (?insert, Some [VNum 1])], console = []\<rparr> :: nat world"
  let ?w4 = "\<lparr>db = 4, sent = [(''begin'', None), (''SET CONSTRAINTS fk_parent DEFERRED'', None),
              (?insert, Some [VNum 1]), (?insert, Some [VNum 2])],
              console = [DriverError ''connection lost'']\<rparr> :: nat world"
  let ?d3 = "\<lparr>db = 3, sent = [(''begin'', None), (''SET CONSTRAINTS fk_parent DEFERRED'', None),
              (?delete, Some [VNum 1])], console = [DriverError ''connection lost'']\<rparr> :: nat world"
  have write_ok: "writeRows ?good ''users'' [[(''id'', VNum 1)], [(''id'', VNum 2)]] [''id''] start
     = (Inr (), \<lparr>db = 5,
          sent = [(''begin'', None), (''SET CONSTRAINTS fk_parent DEFERRED'', None),
                  (?insert, Some [VNum 1]), (?insert, Some [VNum 2]), (''commit'', None)],
          console = []\<rparr>)"
    by code_simp
  have delete_ok: "deleteRows ?good ''users'' [IdNum 1, IdStr ''b''] start
     = (Inr (), \<lparr>db = 5,
          sent = [(''begin'', None), (''SET CONSTRAINTS fk_parent DEFERRED'', None),
                  (?delete, Some [VNum 1]), (?delete, Some [VStr ''b'']), (''commit'', None)],
          console = []\<rparr>)"
    by code_simp
  have w_begin: "query (testRuntime (Some 3) []) ''begin'' None start = (Inr \<lparr>rows = []\<rparr>, ?w1)"
    by code_simp
  have w_set: "query (testRuntime (Some 3) []) ''SET CONSTRAINTS fk_parent DEFERRED'' None ?w1
      = (Inr \<lparr>rows = []\<rparr>, ?w2)"
    by code_simp
  have w_pre: "for_of [[(''id'', VNum 1)]] (\<lambda>row. upsert (testRuntime (Some 3) []) ''users'' row [''id'']) ?w2
      = (Inr (), ?w3)"
    by code_simp
  have w_fail: "upsert (testRuntime (Some 3) []) ''users'' [(''id'', VNum 2)] [''id''] ?w3
      = (Inl (DriverError ''connection lost''), ?w4)"
    by code_simp
  have d_begin: "query (testRuntime (Some 2) []) ''begin'' None start = (Inr \<lparr>rows = []\<rparr>, ?w1)"
    by code_simp
  have d_set: "query (testRuntime (Some 2) []) ''SET CONSTRAINTS fk_parent DEFERRED'' None ?w1
      = (Inr \<lparr>rows = []\<rparr>, ?w2)"
    by code_simp
  have d_pre: "for_of [] (\<lambda>i. delete (testRuntime (Some 2) []) ''users'' [(''id'', id_val i)]) ?w2
      = (Inr (), ?w2)"
    by simp
  have d_fail: "delete (testRuntime (Some 2) []) ''users'' [(''id'', id_val (IdNum 1))] ?w2
      = (Inl (DriverError ''connection lost''), ?d3)"
    by code_simp
  have users: "spec_pattern ''users''" using legal_example by simp
  note at_write = batch_sequence [where rt = "testRuntime (Some 3) []" and t = "''users''" and unique = "[''id'']"
      and w = start and a = "\<lparr>rows = []\<rparr>" and ?w1.0 = "?w1" and b = "\<lparr>rows = []\<rparr>" and ?w2.0 = "?w2"
      and pre = "[[(''id'', VNum 1)]]" and ?w3.0 = "?w3" and row = "[(''id'', VNum 2)]"
      and e = "DriverError ''connection lost''" and ?w4.0 = "?w4" and post = "[[(''id'', VNum 3)]]"]
  from at_write [THEN conjunct2, THEN conjunct1] w_begin w_set w_pre w_fail
  have write_stops: "writeRows (testRuntime (Some 3) []) ''users''
         ([[(''id'', VNum 1)]] @ [(''id'', VNum 2)] # [[(''id'', VNum 3)]]) [''id''] start
     = (Inl (DriverError ''connection lost''), ?w4)"
    by blast
  note at_delete = batch_sequence [where rt = "testRuntime (Some 2) []" and t = "''users''"
      and w = start and a = "\<lparr>rows = []\<rparr>" and ?w1.0 = "?w1" and b = "\<lparr>rows = []\<rparr>" and ?w2.0 = "?w2"
      and before = "[]" and ?w3.0 = "?w2" and i = "IdNum 1"
      and e = "DriverError ''connection lost''" and ?w4.0 = "?d3" and after = "[IdStr ''b'']"]
  from at_delete [THEN conjunct2, THEN conjunct2, THEN conjunct2, THEN conjunct1] d_begin d_set d_pre d_fail
  have delete_stops: "deleteRows (testRuntime (Some 2) []) ''users'' ([] @ IdNum 1 # [IdStr ''b'']) start
     = (Inl (DriverError ''connection lost''), ?d3)"
    by blast
  from batch_sequence [where rt = "?good" and t = "''users''" and i = "IdNum 1",
      THEN conjunct2, THEN conjunct2, THEN conjunct2, THEN conjunct2] users
  have by_id: "call_of (isoFormat ?good) (delete_sql ''users'' [(''id'', id_val (IdNum 1))])
     = Some (?delete, Some [VNum 1])"
    by simp
  from batch_sequence [where rt = "?good" and t = "''users''" and unique = "[''id'']" and w = start
      and rowList = "[[(''id'', VNum 1)], [(''id'', VNum 2)]]", THEN conjunct1] write_ok
  have write_trace: "\<exists>calls. map (\<lambda>row. call_of (isoFormat ?good) (upsert_sql ''users'' row [''id'']))
                   [[(''id'', VNum 1)], [(''id'', VNum 2)]] = map Some calls
        \<and> sent (snd (writeRows ?good ''users'' [[(''id'', VNum 1)], [(''id'', VNum 2)]] [''id''] start))
            = sent start @ [(''begin'', None), (''SET CONSTRAINTS fk_parent DEFERRED'', None)]
                @ calls @ [(''commit'', None)]"
    by (simp only: snd_conv)
  from batch_sequence [where rt = "?good" and t = "''users''" and w = start
      and ids = "[IdNum 1, IdStr ''b'']", THEN conjunct2, THEN conjunct2, THEN conjunct1] delete_ok
  have delete_trace: "\<exists>calls. map (\<lambda>i. call_of (isoFormat ?good) (delete_sql ''users'' [(''id'', id_val i)]))
                   [IdNum 1, IdStr ''b''] = map Some calls
        \<and> sent (snd (deleteRows ?good ''users'' [IdNum 1, IdStr ''b''] start))
            = sent start @ [(''begin'', None), (''SET CONSTRAINTS fk_parent DEFERRED'', None)]
                @ calls @ [(''commit'', None)]"
    by (simp only: snd_conv)
  from write_ok write_stops delete_ok delete_stops users by_id write_trace delete_trace show ?thesis
    by (intro conjI)
qed


end
